theory Spec2Isabelle
  imports Main "HOL-Library.Signed_Division" "HOL-Library.Multiset"
begin

section \<open>Errors\<close>

text \<open>
  Go error values. \<open>Error msg\<close> is a plain error (\<^verbatim>\<open>fmt.Errorf\<close>, \<^verbatim>\<open>errors.New\<close>),
  \<open>NetTimeout msg\<close> is an error that implements \<^verbatim>\<open>net.Error\<close> with \<^verbatim>\<open>Timeout() == true\<close>,
  \<open>Wrap msg e\<close> is \<^verbatim>\<open>fmt.Errorf(msg + ": %w", e)\<close>, and \<open>StatusError msg code\<close> is
  \<^verbatim>\<open>fmt.Errorf(msg + ": %d", code)\<close> for a status code.
\<close>

datatype error = Error string | NetTimeout string | Wrap string error | StatusError string int

section \<open>Tenant registry and reloader (tenant.go, fetcher.go)\<close>

text \<open>
  \<^verbatim>\<open>RulesObjtoreFetcher\<close> holds the tenant list that \<^verbatim>\<open>SetTenants\<close> replaces under
  \<^verbatim>\<open>tenantsMtx\<close>. The client is passed to the functions that use it.
\<close>

record RulesObjtoreFetcher =
  tenants :: "string list"

definition SetTenants :: "RulesObjtoreFetcher \<Rightarrow> string list \<Rightarrow> RulesObjtoreFetcher" where
  "SetTenants f ts = f\<lparr>tenants := ts\<rparr>"

text \<open>
  One iteration of the \<^verbatim>\<open>select\<close> in \<^verbatim>\<open>newTenantsFileReloader\<close> is decided by which
  channel delivers: \<open>Tick r\<close> when the ticker fires and \<^verbatim>\<open>readTenants()\<close> returns \<open>r\<close>,
  \<open>Done\<close> when \<^verbatim>\<open>ctx.Done()\<close> is taken. The list of events is the run of the loop
  as the environment drives it.
\<close>

datatype select_event = Tick "error + string list" | Done

text \<open>
  The loop of \<^verbatim>\<open>newTenantsFileReloader\<close>, with its local \<^verbatim>\<open>errorCount\<close> and the
  \<^verbatim>\<open>tenset\<close> it updates. The result is \<open>None\<close> while the loop has not returned (the
  events are used up), \<open>Some None\<close> for \<^verbatim>\<open>return nil\<close> and \<open>Some (Some e)\<close> for
  \<^verbatim>\<open>return e\<close>. \<^verbatim>\<open>errorCount\<close> is a \<^verbatim>\<open>uint\<close>; it never exceeds 3 here, so it
  is a \<open>nat\<close>.
\<close>

definition reload_failed :: error where
  "reload_failed = Error ''failed to read tenants file 3 times in a row''"

fun reloader_loop ::
  "select_event list \<Rightarrow> nat \<Rightarrow> RulesObjtoreFetcher \<Rightarrow> error option option \<times> RulesObjtoreFetcher" where
  "reloader_loop [] errorCount tenset = (None, tenset)"
| "reloader_loop (Done # evs) errorCount tenset = (Some None, tenset)"
| "reloader_loop (Tick (Inl e) # evs) errorCount tenset =
     (if errorCount + 1 \<ge> 3
      then (Some (Some reload_failed), tenset)
      else reloader_loop evs (errorCount + 1) tenset)"
| "reloader_loop (Tick (Inr ts) # evs) errorCount tenset =
     reloader_loop evs 0 (SetTenants tenset ts)"

definition newTenantsFileReloader ::
  "select_event list \<Rightarrow> RulesObjtoreFetcher \<Rightarrow> error option option \<times> RulesObjtoreFetcher" where
  "newTenantsFileReloader evs tenset = reloader_loop evs 0 tenset"

definition is_failure :: "select_event \<Rightarrow> bool" where
  "is_failure ev = (case ev of Tick (Inl e) \<Rightarrow> True | _ \<Rightarrow> False)"

text \<open>
  \<open>streak evs n\<close>: the events contain three consecutive failed reads with no \<open>Done\<close>
  before them, where \<open>n\<close> failures already counted may stand for the first ones when the
  run of failures opens the list.
\<close>

definition streak :: "select_event list \<Rightarrow> nat \<Rightarrow> bool" where
  "streak evs n \<longleftrightarrow> (\<exists>pre fs post. evs = pre @ fs @ post \<and> Done \<notin> set pre \<and>
      (\<forall>x\<in>set fs. is_failure x) \<and> (length fs = 3 \<or> (pre = [] \<and> length fs + n = 3)))"

section \<open>Rule documents and HTTP responses\<close>

text \<open>
  A \<^verbatim>\<open>rulefmt.RuleGroup\<close> is a name and a payload that the program copies and never
  reads. Of an \<^verbatim>\<open>http.Response\<close> the program reads the status code, the
  \<^verbatim>\<open>Retry-After\<close> header (\<^verbatim>\<open>Header.Get\<close> gives the empty string when it is absent)
  and the body: \<open>Body\<close> is what \<^verbatim>\<open>io.ReadAll\<close> yields, \<open>BodyClosed\<close> whether
  \<^verbatim>\<open>Body.Close()\<close> has been called.
\<close>

record RuleGroup =
  Name :: string
  Rules :: string

record Response =
  StatusCode :: int
  RetryAfter :: string
  Body :: "error + string"
  BodyClosed :: bool

text \<open>
  The pair \<^verbatim>\<open>(res, err)\<close> that an HTTP client returns is a sum: an error and no
  response, or a response and a nil error.
\<close>

record tenantFetchResult =
  tenant :: string
  res_err :: "error + Response"

text \<open>
  What \<^verbatim>\<open>GetTenantsRules\<close> calls outside this repository: the rules client
  (\<^verbatim>\<open>ListRules\<close>, the answer for a tenant while the context is live),
  \<^verbatim>\<open>rulefmt.Parse\<close> (the groups and the list of errors) and \<^verbatim>\<open>yaml.Marshal\<close>.
\<close>

record backend =
  ListRules :: "string \<Rightarrow> error + Response"
  Parse :: "string \<Rightarrow> RuleGroup list \<times> error list"
  Marshal :: "RuleGroup list \<Rightarrow> error + string"

section \<open>GetTenantsRules (fetcher.go)\<close>

text \<open>\<^verbatim>\<open>err.Error()\<close>; the digits of a status code are left out.\<close>

fun error_message :: "error \<Rightarrow> string" where
  "error_message (Error m) = m"
| "error_message (NetTimeout m) = m"
| "error_message (Wrap m e) = m @ '': '' @ error_message e"
| "error_message (StatusError m code) = m"

text \<open>\<^verbatim>\<open>aggregateErrorMessages\<close>: the messages joined by a comma and a space.\<close>

fun aggregateErrorMessages :: "error list \<Rightarrow> string" where
  "aggregateErrorMessages [] = []"
| "aggregateErrorMessages [err] = error_message err"
| "aggregateErrorMessages (err # errs) = error_message err @ '', '' @ aggregateErrorMessages errs"

text \<open>Lines 122 to 124: every group's name gets the tenant and a dot in front.\<close>

definition prefix_groups :: "string \<Rightarrow> RuleGroup list \<Rightarrow> RuleGroup list" where
  "prefix_groups tenantID groups =
     map (\<lambda>group. group\<lparr>Name := tenantID @ ''.'' @ Name group\<rparr>) groups"

text \<open>
  The body of the collector's loop (lines 100 to 126) for one result taken from the
  channel: \<open>Inl\<close> is the error it returns with, \<open>Inr\<close> the accumulator \<^verbatim>\<open>rules\<close>
  after the append. Go's integer division truncates, which is \<open>sdiv\<close>.
\<close>

definition consume :: "backend \<Rightarrow> tenantFetchResult \<Rightarrow> RuleGroup list \<Rightarrow> error + RuleGroup list" where
  "consume B result rules =
     (case res_err result of
        Inl err \<Rightarrow> Inl (Wrap ''failed to do http request'' err)
      | Inr res \<Rightarrow>
          if StatusCode res sdiv 100 \<noteq> 2
          then Inl (StatusError ''got unexpected status from Observatorium API'' (StatusCode res))
          else (case Body res of
                  Inl err \<Rightarrow> Inl (Wrap ''failed to read response body'' err)
                | Inr body \<Rightarrow>
                    (case Parse B body of
                       (rulesParsed, errors) \<Rightarrow>
                         if length errors > 0 then Inl (Error (aggregateErrorMessages errors))
                         else Inr (rules @ prefix_groups (tenant result) rulesParsed))))"

text \<open>
  The goroutines of one call. \<open>pending\<close> is what the \<^verbatim>\<open>range\<close> loop of the dispatcher
  has not reached, \<open>inflight\<close> the tenants whose goroutine holds a slot of \<^verbatim>\<open>sem\<close> and
  has not delivered its result, \<open>ctx_err\<close> is \<open>Some e\<close> once \<^verbatim>\<open>ctx.Done()\<close> is
  closed with \<^verbatim>\<open>ctx.Err() = e\<close>, \<open>rules\<close> is the collector's accumulator, \<open>launched\<close>
  logs the tenants for which a fetch goroutine was started (line 87), and \<open>snapshot\<close> is
  the copy of the tenant list made under the mutex (lines 71 to 74).
\<close>

record cycle =
  pending :: "string list"
  inflight :: "string list"
  ctx_err :: "error option"
  rules :: "RuleGroup list"
  launched :: "string list"
  snapshot :: "string list"

text \<open>
  The scheduler's choices, one per step:
  \<^item> \<open>SelectSem\<close>: the dispatcher's \<^verbatim>\<open>select\<close> takes \<^verbatim>\<open>sem <- struct{}{}\<close> (there must be
    a free slot) and starts the goroutine of the next tenant;
  \<^item> \<open>SelectDone\<close>: the \<^verbatim>\<open>select\<close> takes \<^verbatim>\<open><-ctx.Done()\<close> (the context must be done);
    the dispatcher sends the context's error as the result of the next tenant and returns;
  \<^item> \<open>Report t\<close>: the goroutine of \<open>t\<close> gets the answer of \<^verbatim>\<open>ListRules\<close> (an
    HTTP client fails a request whose context is done: the answer is then taken to be the
    context's error), the collector takes it from the channel, and the slot is released;
  \<^item> \<open>Cancel\<close>: the caller's context is cancelled.
  Go chooses among the ready cases of a \<^verbatim>\<open>select\<close> at random, so with a done context
  and a free slot both \<open>SelectSem\<close> and \<open>SelectDone\<close> are possible.
\<close>

datatype sched = SelectSem | SelectDone | Report string | Cancel

definition concurrency :: nat where
  "concurrency = 10"

definition context_canceled :: error where
  "context_canceled = Error ''context canceled''"

text \<open>
  The collector (lines 98 to 135) running against the dispatcher and the fetch goroutines
  under a schedule. When no tenant is pending and none is in flight the channel is closed
  (\<open>closed\<close>), the loop ends and the accumulator is marshalled (\<open>finish\<close>, lines 129 to
  135). The result is \<open>None\<close> when the
  schedule ends before the function returns, or names a step that cannot be taken.
\<close>

definition closed :: "cycle \<Rightarrow> bool" where
  "closed c \<longleftrightarrow> pending c = [] \<and> inflight c = []"

definition finish :: "backend \<Rightarrow> cycle \<Rightarrow> (error + string) \<times> cycle" where
  "finish B c =
     (case Marshal B (rules c) of
        Inl err \<Rightarrow> (Inl (Wrap ''failed to marshal rules'' err), c)
      | Inr returnData \<Rightarrow> (Inr returnData, c))"

fun collect :: "backend \<Rightarrow> sched list \<Rightarrow> cycle \<Rightarrow> ((error + string) \<times> cycle) option" where
  "collect B [] c = (if closed c then Some (finish B c) else None)"
| "collect B (Cancel # sch) c =
     (if closed c then Some (finish B c)
      else collect B sch (if ctx_err c = None then c\<lparr>ctx_err := Some context_canceled\<rparr> else c))"
| "collect B (SelectSem # sch) c =
     (if closed c then Some (finish B c)
      else (case pending c of
              [] \<Rightarrow> None
            | tenantID # rest \<Rightarrow>
                if length (inflight c) < concurrency
                then collect B sch
                       (c\<lparr>pending := rest, inflight := inflight c @ [tenantID],
                          launched := launched c @ [tenantID]\<rparr>)
                else None))"
| "collect B (SelectDone # sch) c =
     (if closed c then Some (finish B c)
      else (case (pending c, ctx_err c) of
              (tenantID # rest, Some e) \<Rightarrow>
                (case consume B \<lparr>tenant = tenantID, res_err = Inl e\<rparr> (rules c) of
                   Inl err \<Rightarrow> Some (Inl err, c\<lparr>pending := []\<rparr>)
                 | Inr rules' \<Rightarrow> collect B sch (c\<lparr>pending := [], rules := rules'\<rparr>))
            | _ \<Rightarrow> None))"
| "collect B (Report tenantID # sch) c =
     (if closed c then Some (finish B c)
      else if tenantID \<in> set (inflight c) then
        (case consume B
                \<lparr>tenant = tenantID,
                 res_err = (case ctx_err c of None \<Rightarrow> ListRules B tenantID | Some e \<Rightarrow> Inl e)\<rparr>
                (rules c) of
           Inl err \<Rightarrow> Some (Inl err, c)
         | Inr rules' \<Rightarrow>
             collect B sch (c\<lparr>inflight := remove1 tenantID (inflight c), rules := rules'\<rparr>))
      else None)"

text \<open>
  \<^verbatim>\<open>GetTenantsRules\<close>. The dispatcher copies \<^verbatim>\<open>f.tenants\<close> under the mutex (lines 71 to
  74) and then ranges over \<^verbatim>\<open>f.tenants\<close> itself (line 76), which Go reads once, when the
  loop starts. \<open>racing\<close> are the \<^verbatim>\<open>SetTenants\<close> calls of other goroutines that take the
  mutex after line 74 and before that read; \<^verbatim>\<open>SetTenants\<close> replaces the slice and does
  not write into it, so later calls do not reach the loop. \<open>ctx\<close> is the state of the
  caller's context at the call.
\<close>

definition GetTenantsRules ::
  "backend \<Rightarrow> RulesObjtoreFetcher \<Rightarrow> string list list \<Rightarrow> error option \<Rightarrow> sched list \<Rightarrow>
   ((error + string) \<times> cycle) option" where
  "GetTenantsRules B f racing ctx sch =
     (let copied = tenants f;
          f' = foldl SetTenants f racing
      in collect B sch
           \<lparr>pending = tenants f', inflight = [], ctx_err = ctx, rules = [],
            launched = [], snapshot = copied\<rparr>)"

text \<open>The value of \<^verbatim>\<open>f.tenants\<close> that the \<^verbatim>\<open>range\<close> loop of line 76 reads.\<close>

definition ranged :: "RulesObjtoreFetcher \<Rightarrow> string list list \<Rightarrow> string list" where
  "ranged f racing = tenants (foldl SetTenants f racing)"

text \<open>The schedule that fetches one tenant after the other.\<close>

definition sequential :: "string list \<Rightarrow> sched list" where
  "sequential ts = concat (map (\<lambda>t. [SelectSem, Report t]) ts)"

text \<open>
  What the claims call a tenant's fetch: it succeeds when the client returns a response
  with a 2xx status whose body can be read and parses without errors; \<open>fetched_groups\<close>
  are the groups of that document.
\<close>

definition fetch_ok :: "backend \<Rightarrow> string \<Rightarrow> bool" where
  "fetch_ok B t =
     (case ListRules B t of
        Inl err \<Rightarrow> False
      | Inr res \<Rightarrow> 200 \<le> StatusCode res \<and> StatusCode res \<le> 299 \<and>
          (case Body res of Inl err \<Rightarrow> False | Inr body \<Rightarrow> snd (Parse B body) = []))"

definition fetched_groups :: "backend \<Rightarrow> string \<Rightarrow> RuleGroup list" where
  "fetched_groups B t =
     (case ListRules B t of
        Inr res \<Rightarrow> (case Body res of Inr body \<Rightarrow> fst (Parse B body) | Inl err \<Rightarrow> [])
      | Inl err \<Rightarrow> [])"

definition merged :: "backend \<Rightarrow> string list \<Rightarrow> RuleGroup list" where
  "merged B order =
     concat (map (\<lambda>t. map (\<lambda>g. g\<lparr>Name := t @ ''.'' @ Name g\<rparr>) (fetched_groups B t)) order)"

text \<open>The error that the collector returns when it takes the failed fetch of a tenant.\<close>

definition fetch_error :: "backend \<Rightarrow> string \<Rightarrow> error option" where
  "fetch_error B t =
     (case ListRules B t of
        Inl err \<Rightarrow> Some (Wrap ''failed to do http request'' err)
      | Inr res \<Rightarrow>
          if \<not> (200 \<le> StatusCode res \<and> StatusCode res \<le> 299)
          then Some (StatusError ''got unexpected status from Observatorium API'' (StatusCode res))
          else (case Body res of
                  Inl err \<Rightarrow> Some (Wrap ''failed to read response body'' err)
                | Inr body \<Rightarrow>
                    if snd (Parse B body) = [] then None
                    else Some (Error (aggregateErrorMessages (snd (Parse B body))))))"

text \<open>
  A backend for concrete runs, after the repository's test of the fetcher: every tenant
  answers 200 with a document of two groups.
\<close>

definition test_backend :: backend where
  "test_backend =
     \<lparr>ListRules = (\<lambda>t. Inr \<lparr>StatusCode = 200, RetryAfter = [], Body = Inr ''groups'',
                              BodyClosed = False\<rparr>),
      Parse = (\<lambda>body. if body = [] then ([], [])
                       else ([\<lparr>Name = ''test'', Rules = ''TestAlert''\<rparr>,
                              \<lparr>Name = ''test2'', Rules = ''TestRecord2''\<rparr>], [])),
      Marshal = (\<lambda>groups. Inr (concat (map (\<lambda>g. Name g @ ''; '') groups)))\<rparr>"

text \<open>The same backend answering every tenant with status 500.\<close>

definition failing_backend :: backend where
  "failing_backend =
     test_backend\<lparr>ListRules := (\<lambda>t. Inr \<lparr>StatusCode = 500, RetryAfter = [],
        Body = Inr ''internal server error'', BodyClosed = False\<rparr>)\<rparr>"

section \<open>RetryableTransport\<close>

text \<open>
  A \<^verbatim>\<open>time.Duration\<close> is a number of nanoseconds in an \<^verbatim>\<open>int64\<close>; clock readings are
  nanoseconds as well. \<open>int64\<close> is the wrap-around of Go's addition.
\<close>

type_synonym Duration = int

definition int64 :: "int \<Rightarrow> Duration" where
  "int64 x = signed_take_bit 63 x"

definition Millisecond :: Duration where
  "Millisecond = 1000000"

definition Second :: Duration where
  "Second = 1000 * Millisecond"

definition Minute :: Duration where
  "Minute = 60 * Second"

subsection \<open>The back-off library\<close>

text \<open>
  Modelled from the spec: the retry loop and the exponential back-off of the library
  \<^verbatim>\<open>github.com/cenkalti/backoff/v4\<close> (\<^verbatim>\<open>NewExponentialBackOff\<close>, \<^verbatim>\<open>Reset\<close>,
  \<^verbatim>\<open>NextBackOff\<close>, \<^verbatim>\<open>Retry\<close>, \<^verbatim>\<open>Permanent\<close>), which \<^verbatim>\<open>RoundTrip\<close> calls and which is
  not among the sources. The spec: exponential back-off starting at InitialInterval, capped
  per step at MaxInterval, the whole loop capped at MaxElapsedTime measured from the first
  attempt; once the elapsed time would exceed MaxElapsedTime the loop stops; a permanent
  failure stops the loop at once. What the spec leaves open is as the library has it: the
  defaults of \<^verbatim>\<open>NewExponentialBackOff\<close> (500ms, 60s, 15min), a multiplier of 1.5, a wait
  drawn at random between half and one and a half times the current interval, and the
  current interval and the start time of the elapsed-time clock kept in the
  \<^verbatim>\<open>ExponentialBackOff\<close> itself, where \<^verbatim>\<open>Reset\<close> and \<^verbatim>\<open>NextBackOff\<close> write them. The
  draw \<^verbatim>\<open>rand.Float64()\<close> is \<open>k / 2^53\<close> for the integer \<open>k\<close> (from 0, below \<open>2^53\<close>)
  that the environment supplies; the floating-point arithmetic is taken as exact, with
  Go's truncation towards zero (\<open>sdiv\<close>), and the library's additions are not wrapped.
\<close>

record ExponentialBackOff =
  InitialInterval :: Duration
  MaxInterval :: Duration
  MaxElapsedTime :: Duration
  currentInterval :: Duration
  startTime :: int

definition Stop :: Duration where
  "Stop = - 1"

definition Reset :: "ExponentialBackOff \<Rightarrow> int \<Rightarrow> ExponentialBackOff" where
  "Reset b now = b\<lparr>currentInterval := InitialInterval b, startTime := now\<rparr>"

definition NewExponentialBackOff :: "int \<Rightarrow> ExponentialBackOff" where
  "NewExponentialBackOff now =
     Reset \<lparr>InitialInterval = 500 * Millisecond, MaxInterval = 60 * Second,
            MaxElapsedTime = 15 * Minute, currentInterval = 0, startTime = 0\<rparr> now"

definition getRandomValueFromInterval :: "int \<Rightarrow> Duration \<Rightarrow> Duration" where
  "getRandomValueFromInterval k current =
     (current * 2 ^ 52 + k * (current + 1)) sdiv 2 ^ 53"

definition incrementCurrentInterval :: "ExponentialBackOff \<Rightarrow> ExponentialBackOff" where
  "incrementCurrentInterval b =
     (if 3 * currentInterval b \<ge> 2 * MaxInterval b
      then b\<lparr>currentInterval := MaxInterval b\<rparr>
      else b\<lparr>currentInterval := (3 * currentInterval b) sdiv 2\<rparr>)"

definition NextBackOff :: "ExponentialBackOff \<Rightarrow> int \<Rightarrow> int \<Rightarrow> Duration \<times> ExponentialBackOff" where
  "NextBackOff b now k =
     (let elapsed = now - startTime b;
          next = getRandomValueFromInterval k (currentInterval b);
          b' = incrementCurrentInterval b
      in if MaxElapsedTime b \<noteq> 0 \<and> elapsed + next > MaxElapsedTime b then (Stop, b')
         else (next, b'))"

subsection \<open>The transport\<close>

text \<open>
  \<^verbatim>\<open>RetryableTransportCfg\<close> and \<^verbatim>\<open>RetryableTransport\<close>. The wrapped
  \<^verbatim>\<open>http.RoundTripper\<close> is the environment: it is the list of attempts below.
  \<^verbatim>\<open>backoffConfig\<close> is a pointer in Go, so the value held here is the one object that all
  calls of \<^verbatim>\<open>RoundTrip\<close> on this transport pass to \<^verbatim>\<open>backoff.Retry\<close>.
\<close>

record RetryableTransportCfg =
  cfg_InitialInterval :: Duration
  cfg_MaxInterval :: Duration
  cfg_MaxElapsedTime :: Duration

record RetryableTransport =
  backoffConfig :: ExponentialBackOff

definition setIfNotZero :: "Duration \<Rightarrow> Duration \<Rightarrow> Duration" where
  "setIfNotZero dst src = (if src \<noteq> 0 then src else dst)"

definition NewRetryableTransport :: "RetryableTransportCfg \<Rightarrow> int \<Rightarrow> RetryableTransport" where
  "NewRetryableTransport cfg now =
     (let b = NewExponentialBackOff now
      in \<lparr>backoffConfig =
            b\<lparr>InitialInterval := setIfNotZero (InitialInterval b) (cfg_InitialInterval cfg),
              MaxInterval := setIfNotZero (MaxInterval b) (cfg_MaxInterval cfg),
              MaxElapsedTime := setIfNotZero (MaxElapsedTime b) (cfg_MaxElapsedTime cfg)\<rparr>\<rparr>)"

text \<open>
  One attempt as the environment decides it: the time the wrapped transport takes, what
  it returns, and the random draw of the \<^verbatim>\<open>NextBackOff\<close> that follows a retryable
  failure.
\<close>

record attempt =
  latency :: Duration
  outcome :: "error + Response"
  random :: int

text \<open>
  The variables of one call of \<^verbatim>\<open>RoundTrip\<close>: \<open>resp_err\<close> is the pair
  \<^verbatim>\<open>(resp, err)\<close> that the closure assigns (\<open>None\<close> before the first attempt), \<open>now\<close>
  the clock. \<open>starts\<close> logs the clock at each request and \<open>sleeps\<close> every wait
  (\<^verbatim>\<open>time.Sleep\<close> and the back-off timer), for the claims to speak about.
\<close>

record call =
  resp_err :: "(error + Response) option"
  now :: int
  starts :: "int list"
  sleeps :: "Duration list"

text \<open>What the closure \<^verbatim>\<open>operation\<close> returns: nil, an error, or a \<^verbatim>\<open>backoff.Permanent\<close> error.\<close>

datatype op_result = NoError | Retryable error | Permanent error

definition StatusTooManyRequests :: int where
  "StatusTooManyRequests = 429"

definition close_body :: "Response \<Rightarrow> Response" where
  "close_body resp = resp\<lparr>BodyClosed := True\<rparr>"

text \<open>
  The closure \<^verbatim>\<open>operation\<close> (lines 50 to 81) on one attempt. \<open>ParseDuration\<close> is
  \<^verbatim>\<open>time.ParseDuration\<close>; \<open>startTime0\<close> is the local \<^verbatim>\<open>startTime\<close> of \<^verbatim>\<open>RoundTrip\<close>.
  \<^verbatim>\<open>time.Sleep\<close> returns at once for a negative duration.
\<close>

definition operation ::
  "(string \<Rightarrow> error + Duration) \<Rightarrow> ExponentialBackOff \<Rightarrow> int \<Rightarrow> attempt \<Rightarrow> call \<Rightarrow> op_result \<times> call" where
  "operation ParseDuration b startTime0 a k =
     (let k1 = k\<lparr>resp_err := Some (outcome a), now := now k + latency a,
                  starts := starts k @ [now k]\<rparr>
      in case outcome a of
           Inl err \<Rightarrow>
             (case err of
                NetTimeout m \<Rightarrow> (Retryable err, k1)
              | _ \<Rightarrow> (Permanent err, k1))
         | Inr resp \<Rightarrow>
             if StatusCode resp \<ge> 500 then
               (Retryable (StatusError ''server error'' (StatusCode resp)),
                k1\<lparr>resp_err := Some (Inr (close_body resp))\<rparr>)
             else if StatusCode resp = StatusTooManyRequests then
               (let k2 = k1\<lparr>resp_err := Some (Inr (close_body resp))\<rparr>
                in if RetryAfter resp \<noteq> [] then
                     (case ParseDuration (RetryAfter resp) of
                        Inr delay \<Rightarrow>
                          if delay > MaxElapsedTime b \<or>
                             int64 ((now k1 - startTime0) + delay) > MaxElapsedTime b
                          then (Permanent (Error ''retry-after delay is greater than max elapsed time''), k2)
                          else (Retryable (StatusError ''rate limit reached'' (StatusCode resp)),
                                k2\<lparr>now := now k2 + max 0 delay, sleeps := sleeps k2 @ [delay]\<rparr>)
                      | Inl err \<Rightarrow>
                          (Retryable (StatusError ''rate limit reached'' (StatusCode resp)), k2))
                   else (Retryable (StatusError ''rate limit reached'' (StatusCode resp)), k2))
             else if StatusCode resp \<ge> 400 then
               (Permanent (StatusError ''client error'' (StatusCode resp)),
                k1\<lparr>resp_err := Some (Inr (close_body resp))\<rparr>)
             else (NoError, k1))"

text \<open>An attempt that the wrapped transport answers with a response of status 500 or more.\<close>

definition server_error :: "attempt \<Rightarrow> bool" where
  "server_error a = (case outcome a of Inr resp \<Rightarrow> StatusCode resp \<ge> 500 | Inl err \<Rightarrow> False)"

text \<open>
  Modelled from the spec: the loop of \<^verbatim>\<open>backoff.Retry\<close> after its \<^verbatim>\<open>Reset\<close>, one
  iteration per attempt: run the operation; return on nil and on a permanent error; else
  ask \<^verbatim>\<open>NextBackOff\<close>, return on \<open>Stop\<close>, and wait for the timer. The result is \<open>None\<close>
  when the attempts of the environment are used up before the loop returns.
\<close>

fun Retry_loop ::
  "(string \<Rightarrow> error + Duration) \<Rightarrow> int \<Rightarrow> attempt list \<Rightarrow> ExponentialBackOff \<Rightarrow> call \<Rightarrow>
   (ExponentialBackOff \<times> call) option" where
  "Retry_loop ParseDuration startTime0 [] b k = None"
| "Retry_loop ParseDuration startTime0 (a # as) b k =
     (case operation ParseDuration b startTime0 a k of
        (NoError, k') \<Rightarrow> Some (b, k')
      | (Permanent err, k') \<Rightarrow> Some (b, k')
      | (Retryable err, k') \<Rightarrow>
          (case NextBackOff b (now k') (random a) of
             (next, b') \<Rightarrow>
               if next = Stop then Some (b', k')
               else Retry_loop ParseDuration startTime0 as b'
                      (k'\<lparr>now := now k' + max 0 next, sleeps := sleeps k' @ [next]\<rparr>)))"

text \<open>
  \<^verbatim>\<open>RoundTrip\<close> (lines 45 to 86), called at clock \<open>now0\<close>: it returns the pair
  \<^verbatim>\<open>(resp, err)\<close> of the last attempt, whatever \<^verbatim>\<open>backoff.Retry\<close> returned. The model
  also returns the transport, with the \<^verbatim>\<open>ExponentialBackOff\<close> as the call leaves it, and
  the call's log.
\<close>

definition RoundTrip ::
  "RetryableTransport \<Rightarrow> (string \<Rightarrow> error + Duration) \<Rightarrow> int \<Rightarrow> attempt list \<Rightarrow>
   ((error + Response) option \<times> RetryableTransport \<times> call) option" where
  "RoundTrip r ParseDuration now0 attempts =
     (let startTime0 = now0
      in case Retry_loop ParseDuration startTime0 attempts (Reset (backoffConfig r) now0)
                \<lparr>resp_err = None, now = now0, starts = [], sleeps = []\<rparr> of
           None \<Rightarrow> None
         | Some (b, k) \<Rightarrow> Some (resp_err k, r\<lparr>backoffConfig := b\<rparr>, k))"

text \<open>
  Inputs for concrete runs, after the repository's test of the transport: initial interval
  50ms, maximal interval 100ms, maximal elapsed time 200ms; \<^verbatim>\<open>time.ParseDuration\<close> on the
  two header values of the test.
\<close>

definition test_cfg :: RetryableTransportCfg where
  "test_cfg = \<lparr>cfg_InitialInterval = 50 * Millisecond, cfg_MaxInterval = 100 * Millisecond,
               cfg_MaxElapsedTime = 200 * Millisecond\<rparr>"

definition test_ParseDuration :: "string \<Rightarrow> error + Duration" where
  "test_ParseDuration s =
     (if s = ''100ms'' then Inr (100 * Millisecond)
      else if s = ''1h'' then Inr (60 * Minute)
      else Inl (Error ''time: invalid duration''))"

definition response :: "int \<Rightarrow> string \<Rightarrow> Response" where
  "response code retryAfter =
     \<lparr>StatusCode = code, RetryAfter = retryAfter, Body = Inr [], BodyClosed = False\<rparr>"

definition answer :: "Duration \<Rightarrow> int \<Rightarrow> string \<Rightarrow> attempt" where
  "answer d code retryAfter =
     \<lparr>latency = d, outcome = Inr (response code retryAfter), random = 2 ^ 52\<rparr>"

section \<open>Properties of the tenant reloader\<close>

lemma streakI:
  "evs = pre @ fs @ post \<Longrightarrow> Done \<notin> set pre \<Longrightarrow> \<forall>x\<in>set fs. is_failure x \<Longrightarrow>
   length fs = 3 \<or> (pre = [] \<and> length fs + n = 3) \<Longrightarrow> streak evs n"
  unfolding streak_def by blast

lemma reloader_loop_error_sound:
  "n \<le> 2 \<Longrightarrow> fst (reloader_loop evs n f) = Some (Some e) \<Longrightarrow> e = reload_failed \<and> streak evs n"
proof (induction evs n f rule: reloader_loop.induct)
  case (1 errorCount tenset)
  then show ?case by simp
next
  case (2 evs errorCount tenset)
  then show ?case by simp
next
  case (3 e' evs errorCount tenset)
  show ?case
  proof (cases "errorCount + 1 \<ge> 3")
    case True
    with 3 have e: "e = reload_failed" by simp
    from True "3.prems" have n: "errorCount = 2" by simp
    have "streak (Tick (Inl e') # evs) errorCount"
      by (rule streakI [where pre = "[]" and fs = "[Tick (Inl e')]" and post = evs])
         (simp_all add: is_failure_def n)
    with e show ?thesis by simp
  next
    case False
    with 3 have e: "e = reload_failed" and st: "streak evs (errorCount + 1)" by auto
    from st obtain pre fs post where
      s: "evs = pre @ fs @ post" "Done \<notin> set pre" "\<forall>x\<in>set fs. is_failure x"
      and l: "length fs = 3 \<or> (pre = [] \<and> length fs + (errorCount + 1) = 3)"
      unfolding streak_def by blast
    from l have "streak (Tick (Inl e') # evs) errorCount"
    proof
      assume "length fs = 3"
      then show ?thesis
        using s by (intro streakI [where pre = "Tick (Inl e') # pre" and fs = fs and post = post]) simp_all
    next
      assume a: "pre = [] \<and> length fs + (errorCount + 1) = 3"
      then show ?thesis
        using s by (intro streakI [where pre = "[]" and fs = "Tick (Inl e') # fs" and post = post])
          (simp_all add: is_failure_def)
    qed
    with e show ?thesis by simp
  qed
next
  case (4 ts evs errorCount tenset)
  then have e: "e = reload_failed" and st: "streak evs 0" by auto
  from st obtain pre fs post where
      s: "evs = pre @ fs @ post" "Done \<notin> set pre" "\<forall>x\<in>set fs. is_failure x"
      and l: "length fs = 3"
    unfolding streak_def by auto
  have "streak (Tick (Inr ts) # evs) errorCount"
    using s l by (intro streakI [where pre = "Tick (Inr ts) # pre" and fs = fs and post = post]) simp_all
  with e show ?case by simp
qed

lemma is_failure_cases:
  assumes "is_failure x"
  obtains e where "x = Tick (Inl e)"
  using assms by (auto simp: is_failure_def split: select_event.splits sum.splits)

lemma reloader_loop_failures:
  "\<forall>x\<in>set fs. is_failure x \<Longrightarrow> n \<le> 2 \<Longrightarrow> 3 \<le> length fs + n \<Longrightarrow>
   fst (reloader_loop (fs @ post) n f) = Some (Some reload_failed)"
proof (induction fs arbitrary: n)
  case Nil
  then show ?case by simp
next
  case (Cons x fs)
  from Cons.prems obtain e' where x: "x = Tick (Inl e')"
    by (auto elim: is_failure_cases)
  show ?case using Cons by (simp add: x)
qed

lemma reloader_loop_error_complete:
  "Done \<notin> set pre \<Longrightarrow> \<forall>x\<in>set fs. is_failure x \<Longrightarrow> length fs = 3 \<Longrightarrow> n \<le> 2 \<Longrightarrow>
   fst (reloader_loop (pre @ fs @ post) n f) = Some (Some reload_failed)"
proof (induction pre arbitrary: n f)
  case Nil
  then show ?case using reloader_loop_failures [of fs n post f] by simp
next
  case (Cons x pre)
  show ?case
  proof (cases x)
    case (Tick r)
    show ?thesis
    proof (cases r)
      case (Inl e')
      then show ?thesis using Cons Tick by simp
    next
      case (Inr ts)
      then show ?thesis using Cons Tick by simp
    qed
  next
    case Done
    then show ?thesis using Cons.prems by simp
  qed
qed

lemma reloader_loop_running_append:
  "fst (reloader_loop pre n f) = None \<Longrightarrow>
   reloader_loop (pre @ Tick (Inr ts) # rest) n f =
     reloader_loop rest 0 (SetTenants (snd (reloader_loop pre n f)) ts)"
  by (induction pre n f rule: reloader_loop.induct) (simp_all split: if_splits)

lemma reloader_loop_running_done:
  "fst (reloader_loop pre n f) = None \<Longrightarrow>
   reloader_loop (pre @ Done # rest) n f = (Some None, snd (reloader_loop pre n f))"
  by (induction pre n f rule: reloader_loop.induct) (simp_all split: if_splits)

text \<open>
  Claim C7. \<^verbatim>\<open>newTenantsFileReloader\<close> returns an error exactly when three consecutive
  ticks fail to read the tenants (with no cancellation taken before them). While the loop
  is running, a successful read installs its tenants with \<^verbatim>\<open>SetTenants\<close> and resets the
  count, so that the rest of the run is a fresh run on the new tenant set; and taking
  \<^verbatim>\<open>ctx.Done()\<close> ends the loop with \<^verbatim>\<open>nil\<close>, leaving the tenant set as it was.
\<close>

theorem newTenantsFileReloader_three_failures:
  "(fst (newTenantsFileReloader evs f) = Some (Some e) \<longleftrightarrow>
      e = reload_failed \<and>
      (\<exists>pre fs post. evs = pre @ fs @ post \<and> Done \<notin> set pre \<and>
         (\<forall>x\<in>set fs. is_failure x) \<and> length fs = 3)) \<and>
   (fst (newTenantsFileReloader run f) = None \<longrightarrow>
      newTenantsFileReloader (run @ Tick (Inr ts) # rest) f =
        newTenantsFileReloader rest (SetTenants (snd (newTenantsFileReloader run f)) ts)) \<and>
   (fst (newTenantsFileReloader run f) = None \<longrightarrow>
      newTenantsFileReloader (run @ Done # rest) f = (Some None, snd (newTenantsFileReloader run f)))"
proof -
  have sound: "e = reload_failed \<and>
      (\<exists>pre fs post. evs = pre @ fs @ post \<and> Done \<notin> set pre \<and>
         (\<forall>x\<in>set fs. is_failure x) \<and> length fs = 3)"
    if "fst (newTenantsFileReloader evs f) = Some (Some e)"
  proof -
    from that have "e = reload_failed \<and> streak evs 0"
      using reloader_loop_error_sound [of 0 evs f e] by (simp add: newTenantsFileReloader_def)
    then show ?thesis unfolding streak_def by auto
  qed
  have complete: "fst (newTenantsFileReloader evs f) = Some (Some e)"
    if "e = reload_failed \<and>
      (\<exists>pre fs post. evs = pre @ fs @ post \<and> Done \<notin> set pre \<and>
         (\<forall>x\<in>set fs. is_failure x) \<and> length fs = 3)"
    using that reloader_loop_error_complete [where n = 0 and f = f]
    by (auto simp: newTenantsFileReloader_def)
  have success: "newTenantsFileReloader (run @ Tick (Inr ts) # rest) f =
        newTenantsFileReloader rest (SetTenants (snd (newTenantsFileReloader run f)) ts)"
    if "fst (newTenantsFileReloader run f) = None"
    using that reloader_loop_running_append [of run 0 f ts rest]
    by (simp add: newTenantsFileReloader_def)
  have cancel: "newTenantsFileReloader (run @ Done # rest) f =
        (Some None, snd (newTenantsFileReloader run f))"
    if "fst (newTenantsFileReloader run f) = None"
    using that reloader_loop_running_done [of run 0 f rest]
    by (simp add: newTenantsFileReloader_def)
  from sound complete success cancel show ?thesis by blast
qed

theorem newTenantsFileReloader_three_failures_witness:
  "fst (newTenantsFileReloader [Tick (Inl (Error ''open'')), Tick (Inl (Error ''open''))]
      \<lparr>tenants = [''a'']\<rparr>) = None \<and>
   newTenantsFileReloader
     ([Tick (Inl (Error ''open'')), Tick (Inl (Error ''open''))] @ Tick (Inr [''b'']) #
      [Tick (Inl (Error ''open'')), Tick (Inl (Error ''open'')), Done])
     \<lparr>tenants = [''a'']\<rparr> = (Some None, \<lparr>tenants = [''b'']\<rparr>) \<and>
   newTenantsFileReloader
     ([Tick (Inl (Error ''open'')), Tick (Inl (Error ''open''))] @ Done # [])
     \<lparr>tenants = [''a'']\<rparr> = (Some None, \<lparr>tenants = [''a'']\<rparr>) \<and>
   fst (newTenantsFileReloader
     ([Tick (Inr [''b''])] @
      [Tick (Inl (Error ''open'')), Tick (Inl (Error ''open'')), Tick (Inl (Error ''open''))] @ [Done])
     \<lparr>tenants = [''a'']\<rparr>) = Some (Some reload_failed)"
  using newTenantsFileReloader_three_failures
    [of "[Tick (Inr [''b''])] @
         [Tick (Inl (Error ''open'')), Tick (Inl (Error ''open'')), Tick (Inl (Error ''open''))] @ [Done]"
        "\<lparr>tenants = [''a'']\<rparr>" reload_failed
        "[Tick (Inl (Error ''open'')), Tick (Inl (Error ''open''))]" "[''b'']"
        "[Tick (Inl (Error ''open'')), Tick (Inl (Error ''open'')), Done]"]
  by (simp add: newTenantsFileReloader_def SetTenants_def)

section \<open>Properties of GetTenantsRules\<close>

text \<open>The status test of line 104 accepts exactly the codes 200 to 299.\<close>

lemma sdiv_100_eq_2: "(x::int) sdiv 100 = 2 \<longleftrightarrow> 200 \<le> x \<and> x \<le> 299"
proof (cases "0 \<le> x")
  case True
  then have "x sdiv 100 = x div 100" by (simp add: signed_divide_int_def sgn_if)
  then show ?thesis by presburger
next
  case False
  then have "x sdiv 100 = - (\<bar>x\<bar> div 100)" by (simp add: signed_divide_int_def sgn_if)
  moreover have "0 \<le> \<bar>x\<bar> div 100" by simp
  ultimately show ?thesis using False by linarith
qed

lemma consume_error [simp]:
  "consume B \<lparr>tenant = t, res_err = Inl e\<rparr> rs = Inl (Wrap ''failed to do http request'' e)"
  by (simp add: consume_def)

lemma consume_Inr_iff:
  "consume B \<lparr>tenant = t, res_err = ListRules B t\<rparr> rs = Inr rs' \<longleftrightarrow>
     fetch_ok B t \<and> rs' = rs @ prefix_groups t (fetched_groups B t)"
  by (auto simp: consume_def fetch_ok_def fetched_groups_def sdiv_100_eq_2
           split: sum.splits prod.splits)

lemma consume_Inl_iff:
  "consume B \<lparr>tenant = t, res_err = ListRules B t\<rparr> rs = Inl e \<longleftrightarrow> fetch_error B t = Some e"
  by (auto simp: consume_def fetch_error_def sdiv_100_eq_2 split: sum.splits prod.splits)

lemma merged_Cons:
  "merged B (t # order) = prefix_groups t (fetched_groups B t) @ merged B order"
  by (simp add: merged_def prefix_groups_def)

lemma collect_Inr:
  "collect B sch c = Some (Inr doc, c') \<Longrightarrow>
   \<exists>order. mset order = mset (inflight c @ pending c) \<and> (\<forall>t\<in>set order. fetch_ok B t) \<and>
     rules c' = rules c @ merged B order \<and> Marshal B (rules c') = Inr doc"
proof (induction B sch c rule: collect.induct)
  case (1 B c)
  then show ?case
    by (auto simp: closed_def finish_def merged_def split: if_splits sum.splits)
next
  case (2 B sch c)
  then show ?case
    by (auto simp: closed_def finish_def merged_def split: if_splits sum.splits)
next
  case (3 B sch c)
  then show ?case
    by (auto simp: closed_def finish_def merged_def split: if_splits sum.splits list.splits)
next
  case (4 B sch c)
  then show ?case
    by (auto simp: closed_def finish_def merged_def split: if_splits sum.splits list.splits option.splits)
next
  case (5 B tenantID sch c)
  show ?case
  proof (cases "closed c")
    case True
    with 5 show ?thesis
      by (auto simp: closed_def finish_def merged_def split: if_splits sum.splits)
  next
    case False
    with "5.prems" have inb: "tenantID \<in> set (inflight c)" by (simp split: if_splits)
    from False inb "5.prems" have live: "ctx_err c = None"
      by (cases "ctx_err c") simp_all
    from False inb live "5.prems" obtain rules' where
      cons: "consume B \<lparr>tenant = tenantID, res_err = ListRules B tenantID\<rparr> (rules c) = Inr rules'"
      and rec: "collect B sch (c\<lparr>inflight := remove1 tenantID (inflight c), rules := rules'\<rparr>) = Some (Inr doc, c')"
      by (auto split: sum.splits)
    from cons have ok: "fetch_ok B tenantID"
      and r': "rules' = rules c @ prefix_groups tenantID (fetched_groups B tenantID)"
      by (simp_all add: consume_Inr_iff)
    from cons live have cons': "consume B
        \<lparr>tenant = tenantID,
         res_err = (case ctx_err c of None \<Rightarrow> ListRules B tenantID | Some e \<Rightarrow> Inl e)\<rparr>
        (rules c) = Inr rules'" by simp
    from "5.IH" [OF False inb cons' rec] obtain order where
      o: "mset order = mset (remove1 tenantID (inflight c) @ pending c)"
         "\<forall>t\<in>set order. fetch_ok B t"
         "rules c' = rules' @ merged B order" "Marshal B (rules c') = Inr doc"
      by auto
    have "mset (tenantID # order) = mset (inflight c @ pending c)"
      using o(1) inb by simp
    moreover have "\<forall>t\<in>set (tenantID # order). fetch_ok B t" using o(2) ok by simp
    moreover have "rules c' = rules c @ merged B (tenantID # order)"
      using o(3) r' by (simp add: merged_Cons)
    ultimately show ?thesis using o(4) by blast
  qed
qed

lemma fetch_ok_no_error: "fetch_ok B t \<longleftrightarrow> fetch_error B t = None"
  by (auto simp: fetch_ok_def fetch_error_def split: sum.splits)

lemma collect_Report_failure:
  "t \<in> set (inflight c) \<Longrightarrow> ctx_err c = None \<Longrightarrow> fetch_error B t = Some e \<Longrightarrow>
   collect B (Report t # sch) c = Some (Inl e, c)"
  using consume_Inl_iff [of B t "rules c" e] by (auto simp: closed_def)

lemma collect_Inl:
  "collect B sch c = Some (Inl e, c') \<Longrightarrow>
   (\<exists>err. e = Wrap ''failed to marshal rules'' err) \<or>
   (\<exists>t\<in>set (inflight c @ pending c). fetch_error B t = Some e) \<or>
   (\<exists>ce. e = Wrap ''failed to do http request'' ce \<and>
      (ctx_err c = Some ce \<or> (Cancel \<in> set sch \<and> ce = context_canceled)))"
proof (induction B sch c rule: collect.induct)
  case (1 B c)
  then show ?case by (auto simp: finish_def split: if_splits sum.splits)
next
  case (2 B sch c)
  then show ?case by (auto simp: finish_def split: if_splits sum.splits)
next
  case (3 B sch c)
  then show ?case
    by (auto simp: finish_def split: if_splits sum.splits list.splits)
next
  case (4 B sch c)
  then show ?case
    by (auto simp: finish_def split: if_splits sum.splits list.splits option.splits)
next
  case (5 B tenantID sch c)
  show ?case
  proof (cases "closed c")
    case True
    with 5 show ?thesis by (auto simp: finish_def split: if_splits sum.splits)
  next
    case False
    with "5.prems" have inb: "tenantID \<in> set (inflight c)" by (simp split: if_splits)
    show ?thesis
    proof (cases "ctx_err c")
      case (Some ce)
      with False inb "5.prems" have "e = Wrap ''failed to do http request'' ce" by auto
      with Some show ?thesis by blast
    next
      case None
      show ?thesis
      proof (cases "consume B \<lparr>tenant = tenantID, res_err = ListRules B tenantID\<rparr> (rules c)")
        case (Inl err)
        with False inb None "5.prems" have "e = err" by simp
        with Inl have "fetch_error B tenantID = Some e" by (simp add: consume_Inl_iff)
        with inb show ?thesis by auto
      next
        case (Inr rules')
        with None have cons': "consume B
          \<lparr>tenant = tenantID,
           res_err = (case ctx_err c of None \<Rightarrow> ListRules B tenantID | Some e \<Rightarrow> Inl e)\<rparr>
          (rules c) = Inr rules'" by simp
        from False inb cons' "5.prems" have rec:
          "collect B sch (c\<lparr>inflight := remove1 tenantID (inflight c), rules := rules'\<rparr>) = Some (Inl e, c')"
          by simp
        from "5.IH" [OF False inb cons' rec] None show ?thesis
          by (auto dest: set_remove1_subset [THEN subsetD])
      qed
    qed
  qed
qed

lemma collect_cancelled:
  "ctx_err c = Some ce \<Longrightarrow> \<not> closed c \<Longrightarrow> collect B sch c = Some (r, c') \<Longrightarrow>
   r = Inl (Wrap ''failed to do http request'' ce)"
proof (induction B sch c rule: collect.induct)
  case (1 B c)
  then show ?case by simp
next
  case (2 B sch c)
  then show ?case by simp
next
  case (3 B sch c)
  then show ?case by (auto simp: closed_def split: list.splits if_splits)
next
  case (4 B sch c)
  then show ?case by (auto split: list.splits)
next
  case (5 B tenantID sch c)
  then show ?case by (auto split: if_splits)
qed

lemma collect_sequential_returns:
  "inflight c = [] \<Longrightarrow> pending c = ts \<Longrightarrow> \<exists>r. collect B (sequential ts) c = Some r"
proof (induction ts arbitrary: c)
  case Nil
  then show ?case by (simp add: sequential_def closed_def)
next
  case (Cons t ts)
  have seq: "sequential (t # ts) = SelectSem # Report t # sequential ts"
    by (simp add: sequential_def)
  show ?case
  proof (cases "consume B \<lparr>tenant = t,
      res_err = (case ctx_err c of None \<Rightarrow> ListRules B t | Some e \<Rightarrow> Inl e)\<rparr> (rules c)")
    case (Inl err)
    with Cons.prems show ?thesis by (simp add: seq closed_def concurrency_def)
  next
    case (Inr rules')
    let ?c = "c\<lparr>pending := ts, launched := launched c @ [t], inflight := [], rules := rules'\<rparr>"
    have "\<exists>r. collect B (sequential ts) ?c = Some r"
      by (rule Cons.IH) simp_all
    with Inr Cons.prems show ?thesis by (simp add: seq closed_def concurrency_def)
  qed
qed

lemma collect_sequential_ok:
  "inflight c = [] \<Longrightarrow> pending c = ts \<Longrightarrow> ctx_err c = None \<Longrightarrow> \<forall>t\<in>set ts. fetch_ok B t \<Longrightarrow>
   \<exists>c'. collect B (sequential ts) c = Some (finish B c') \<and> rules c' = rules c @ merged B ts \<and>
        launched c' = launched c @ ts \<and> snapshot c' = snapshot c"
proof (induction ts arbitrary: c)
  case Nil
  then show ?case by (auto simp: sequential_def closed_def merged_def)
next
  case (Cons t ts)
  have seq: "sequential (t # ts) = SelectSem # Report t # sequential ts"
    by (simp add: sequential_def)
  from Cons.prems have cons: "consume B \<lparr>tenant = t, res_err = ListRules B t\<rparr> (rules c) =
      Inr (rules c @ prefix_groups t (fetched_groups B t))"
    by (simp add: consume_Inr_iff)
  let ?c = "c\<lparr>pending := ts, launched := launched c @ [t], inflight := [],
               rules := rules c @ prefix_groups t (fetched_groups B t)\<rparr>"
  have "\<exists>c'. collect B (sequential ts) ?c = Some (finish B c') \<and>
        rules c' = rules ?c @ merged B ts \<and> launched c' = launched ?c @ ts \<and>
        snapshot c' = snapshot ?c"
    by (rule Cons.IH) (use Cons.prems in simp_all)
  with cons Cons.prems show ?case
    by (auto simp: seq closed_def concurrency_def merged_Cons)
qed

lemma collect_Inr_launched:
  "collect B sch c = Some (Inr doc, c') \<Longrightarrow>
   launched c' = launched c @ pending c \<and> snapshot c' = snapshot c"
proof (induction B sch c rule: collect.induct)
  case (1 B c)
  then show ?case by (auto simp: finish_def closed_def split: if_splits sum.splits)
next
  case (2 B sch c)
  then show ?case by (auto simp: finish_def closed_def split: if_splits sum.splits)
next
  case (3 B sch c)
  then show ?case
    by (auto simp: finish_def closed_def split: if_splits sum.splits list.splits)
next
  case (4 B sch c)
  then show ?case
    by (auto simp: finish_def closed_def split: if_splits sum.splits list.splits option.splits)
next
  case (5 B tenantID sch c)
  then show ?case
    by (auto simp: finish_def closed_def split: if_splits sum.splits option.splits)
qed

lemma sum_list_mset_cong:
  "mset xs = mset ys \<Longrightarrow> sum_list (map f xs) = (sum_list (map f ys) :: nat)"
proof -
  assume "mset xs = mset ys"
  then have "mset (map f xs) = mset (map f ys)" by (metis mset_map)
  then have "sum_mset (mset (map f xs)) = sum_mset (mset (map f ys))" by simp
  then show ?thesis by (simp only: sum_mset_sum_list)
qed

lemma length_merged:
  "length (merged B order) = sum_list (map (\<lambda>t. length (fetched_groups B t)) order)"
  by (induction order) (simp_all add: merged_def)

text \<open>
  All or nothing, relative to the tenants that the dispatcher ranges over (\<open>ranged\<close>: the
  copy made under the mutex, unless a \<^verbatim>\<open>SetTenants\<close> call comes between the copy and the
  loop). Whatever the schedule and the context: a call that returns a document returns the
  marshalled merge of the documents of all those tenants, each fetched successfully, in
  some order of completion; a call that returns an error returns the marshalling error,
  the error of one tenant's failed fetch or the context's error, and no document; when
  the fetch of one of those tenants fails no schedule yields a document; a failed fetch
  that the collector takes is returned at once; and the call returns under the sequential
  schedule.
\<close>

theorem GetTenantsRules_atomic:
  "(GetTenantsRules B f racing ctx sch = Some (Inr doc, c) \<longrightarrow>
      (\<forall>t\<in>set (ranged f racing). fetch_ok B t) \<and>
      (\<exists>order. mset order = mset (ranged f racing) \<and> rules c = merged B order \<and>
         Marshal B (merged B order) = Inr doc) \<and>
      launched c = ranged f racing \<and> snapshot c = tenants f) \<and>
   (GetTenantsRules B f racing ctx sch = Some (Inl e, c) \<longrightarrow>
      (\<exists>err. e = Wrap ''failed to marshal rules'' err) \<or>
      (\<exists>t\<in>set (ranged f racing). fetch_error B t = Some e) \<or>
      (\<exists>ce. e = Wrap ''failed to do http request'' ce \<and>
         (ctx = Some ce \<or> (Cancel \<in> set sch \<and> ce = context_canceled)))) \<and>
   ((\<exists>t\<in>set (ranged f racing). \<not> fetch_ok B t) \<longrightarrow>
      (\<forall>sch' doc' c'. GetTenantsRules B f racing ctx sch' \<noteq> Some (Inr doc', c'))) \<and>
   (t \<in> set (inflight st) \<and> ctx_err st = None \<and> fetch_error B t = Some fe \<longrightarrow>
      collect B (Report t # sch) st = Some (Inl fe, st)) \<and>
   (\<exists>r. GetTenantsRules B f racing ctx (sequential (ranged f racing)) = Some r)"
proof -
  let ?c = "\<lparr>pending = ranged f racing, inflight = [], ctx_err = ctx, rules = [],
             launched = [], snapshot = tenants f\<rparr>"
  have run: "GetTenantsRules B f racing ctx s = collect B s ?c" for s
    by (simp add: GetTenantsRules_def ranged_def)
  have doc: "(\<forall>t\<in>set (ranged f racing). fetch_ok B t) \<and>
      (\<exists>order. mset order = mset (ranged f racing) \<and> rules c' = merged B order \<and>
         Marshal B (merged B order) = Inr doc') \<and>
      launched c' = ranged f racing \<and> snapshot c' = tenants f"
    if "GetTenantsRules B f racing ctx s = Some (Inr doc', c')" for s doc' c'
  proof -
    from that have l: "launched c' = ranged f racing \<and> snapshot c' = tenants f"
      using collect_Inr_launched [of B s ?c doc' c'] by (simp add: run)
    from that obtain order where o: "mset order = mset (ranged f racing)"
      "\<forall>t\<in>set order. fetch_ok B t" "rules c' = merged B order" "Marshal B (rules c') = Inr doc'"
      using collect_Inr [of B s ?c doc' c'] by (auto simp: run)
    from o(1) have "set order = set (ranged f racing)" by (rule mset_eq_setD)
    with o l show ?thesis by auto
  qed
  have err: "(\<exists>err. e = Wrap ''failed to marshal rules'' err) \<or>
      (\<exists>t\<in>set (ranged f racing). fetch_error B t = Some e) \<or>
      (\<exists>ce. e = Wrap ''failed to do http request'' ce \<and>
         (ctx = Some ce \<or> (Cancel \<in> set sch \<and> ce = context_canceled)))"
    if "GetTenantsRules B f racing ctx sch = Some (Inl e, c)"
    using that collect_Inl [of B sch ?c e c] by (simp add: run)
  have none: "GetTenantsRules B f racing ctx sch' \<noteq> Some (Inr doc', c')"
    if "\<exists>t\<in>set (ranged f racing). \<not> fetch_ok B t" for sch' doc' c'
    using that doc [of sch' doc' c'] by blast
  have first: "collect B (Report t # sch) st = Some (Inl fe, st)"
    if "t \<in> set (inflight st) \<and> ctx_err st = None \<and> fetch_error B t = Some fe"
    using that collect_Report_failure [of t st B fe sch] by blast
  have ret: "\<exists>r. GetTenantsRules B f racing ctx (sequential (ranged f racing)) = Some r"
    unfolding run by (rule collect_sequential_returns) simp_all
  from doc [of sch doc c] err none first ret show ?thesis by blast
qed

lemmas run_simps = GetTenantsRules_def closed_def finish_def consume_def concurrency_def
  prefix_groups_def SetTenants_def sequential_def ranged_def

theorem GetTenantsRules_atomic_witness:
  "GetTenantsRules test_backend \<lparr>tenants = [''tenant1'', ''tenant2'']\<rparr> [] None
       [SelectSem, SelectSem, Report ''tenant2'', Report ''tenant1''] =
     Some (Inr ''tenant2.test; tenant2.test2; tenant1.test; tenant1.test2; '',
       \<lparr>pending = [], inflight = [], ctx_err = None,
        rules = [\<lparr>Name = ''tenant2.test'', Rules = ''TestAlert''\<rparr>,
                 \<lparr>Name = ''tenant2.test2'', Rules = ''TestRecord2''\<rparr>,
                 \<lparr>Name = ''tenant1.test'', Rules = ''TestAlert''\<rparr>,
                 \<lparr>Name = ''tenant1.test2'', Rules = ''TestRecord2''\<rparr>],
        launched = [''tenant1'', ''tenant2''], snapshot = [''tenant1'', ''tenant2'']\<rparr>) \<and>
   fetch_ok test_backend ''tenant1'' \<and> fetch_ok test_backend ''tenant2'' \<and>
   \<not> fetch_ok failing_backend ''tenant1'' \<and>
   GetTenantsRules failing_backend \<lparr>tenants = [''tenant1'', ''tenant2'']\<rparr> [] None
       [SelectSem, SelectSem, Report ''tenant1''] =
     Some (Inl (StatusError ''got unexpected status from Observatorium API'' 500),
       \<lparr>pending = [], inflight = [''tenant1'', ''tenant2''], ctx_err = None, rules = [],
        launched = [''tenant1'', ''tenant2''], snapshot = [''tenant1'', ''tenant2'']\<rparr>) \<and>
   fetch_error failing_backend ''tenant1'' =
     Some (StatusError ''got unexpected status from Observatorium API'' 500) \<and>
   (\<forall>sch doc c. GetTenantsRules failing_backend \<lparr>tenants = [''tenant1'', ''tenant2'']\<rparr> [] None sch
      \<noteq> Some (Inr doc, c)) \<and>
   collect failing_backend [Report ''tenant1'']
       \<lparr>pending = [], inflight = [''tenant1'', ''tenant2''], ctx_err = None, rules = [],
        launched = [''tenant1'', ''tenant2''], snapshot = [''tenant1'', ''tenant2'']\<rparr> =
     Some (Inl (StatusError ''got unexpected status from Observatorium API'' 500),
       \<lparr>pending = [], inflight = [''tenant1'', ''tenant2''], ctx_err = None, rules = [],
        launched = [''tenant1'', ''tenant2''], snapshot = [''tenant1'', ''tenant2'']\<rparr>)"
proof -
  let ?f = "\<lparr>tenants = [''tenant1'', ''tenant2'']\<rparr>"
  let ?c = "\<lparr>pending = [], inflight = [''tenant1'', ''tenant2''], ctx_err = None, rules = [],
        launched = [''tenant1'', ''tenant2''], snapshot = [''tenant1'', ''tenant2'']\<rparr>"
  have ok: "GetTenantsRules test_backend ?f [] None
       [SelectSem, SelectSem, Report ''tenant2'', Report ''tenant1''] =
     Some (Inr ''tenant2.test; tenant2.test2; tenant1.test; tenant1.test2; '',
       \<lparr>pending = [], inflight = [], ctx_err = None,
        rules = [\<lparr>Name = ''tenant2.test'', Rules = ''TestAlert''\<rparr>,
                 \<lparr>Name = ''tenant2.test2'', Rules = ''TestRecord2''\<rparr>,
                 \<lparr>Name = ''tenant1.test'', Rules = ''TestAlert''\<rparr>,
                 \<lparr>Name = ''tenant1.test2'', Rules = ''TestRecord2''\<rparr>],
        launched = [''tenant1'', ''tenant2''], snapshot = [''tenant1'', ''tenant2'']\<rparr>)"
    by (simp add: run_simps test_backend_def)
  have bad: "GetTenantsRules failing_backend ?f [] None [SelectSem, SelectSem, Report ''tenant1''] =
     Some (Inl (StatusError ''got unexpected status from Observatorium API'' 500), ?c)"
    by (simp add: run_simps failing_backend_def test_backend_def)
  have nok: "\<not> fetch_ok failing_backend ''tenant1''"
    by (simp add: fetch_ok_def failing_backend_def)
  have fe: "fetch_error failing_backend ''tenant1'' =
     Some (StatusError ''got unexpected status from Observatorium API'' 500)"
    by (simp add: fetch_error_def failing_backend_def)
  from GetTenantsRules_atomic [where B = test_backend and f = ?f and ctx = None
      and racing = "[]" and sch = "[SelectSem, SelectSem, Report ''tenant2'', Report ''tenant1'']"] ok
  have "fetch_ok test_backend ''tenant1'' \<and> fetch_ok test_backend ''tenant2''"
    by (simp add: ranged_def)
  moreover from GetTenantsRules_atomic [where B = failing_backend and f = ?f and ctx = None
      and racing = "[]"] nok
  have "\<forall>sch doc c. GetTenantsRules failing_backend ?f [] None sch \<noteq> Some (Inr doc, c)"
    by (simp add: ranged_def)
  moreover from GetTenantsRules_atomic [where B = failing_backend and t = "''tenant1''"
      and st = ?c and fe = "StatusError ''got unexpected status from Observatorium API'' 500"
      and sch = "[]"] fe
  have "collect failing_backend [Report ''tenant1''] ?c =
     Some (Inl (StatusError ''got unexpected status from Observatorium API'' 500), ?c)"
    by simp
  ultimately show ?thesis using ok bad nok fe by simp
qed

text \<open>
  Claim C3. A document that \<^verbatim>\<open>GetTenantsRules\<close> returns is the marshalled list of the
  groups of all tenants: for some order of the tenants (the order of completion), the
  groups of each tenant in the order of its document, each with the tenant and a dot in
  front of its name; their number is the sum of the tenants' group counts. When every
  tenant's fetch succeeds (and the merge can be marshalled), the call returns that
  document under the sequential schedule.
\<close>

theorem GetTenantsRules_merged_document:
  "(GetTenantsRules B f racing ctx sch = Some (Inr doc, c) \<longrightarrow>
      (\<exists>order. mset order = mset (ranged f racing) \<and>
         rules c = concat (map (\<lambda>t. map (\<lambda>g. g\<lparr>Name := t @ ''.'' @ Name g\<rparr>)
                                     (fetched_groups B t)) order) \<and>
         Marshal B (rules c) = Inr doc) \<and>
      length (rules c) = sum_list (map (\<lambda>t. length (fetched_groups B t)) (ranged f racing))) \<and>
   ((\<forall>t\<in>set (ranged f racing). fetch_ok B t) \<and> Marshal B (merged B (ranged f racing)) = Inr doc' \<longrightarrow>
      (\<exists>c'. GetTenantsRules B f racing None (sequential (ranged f racing)) = Some (Inr doc', c') \<and>
         rules c' = merged B (ranged f racing)))"
proof -
  let ?c = "\<lambda>ctx. \<lparr>pending = ranged f racing, inflight = [], ctx_err = ctx, rules = [],
             launched = [], snapshot = tenants f\<rparr>"
  have run: "GetTenantsRules B f racing ctx s = collect B s (?c ctx)" for s ctx
    by (simp add: GetTenantsRules_def ranged_def)
  have doc: "(\<exists>order. mset order = mset (ranged f racing) \<and>
         rules c = concat (map (\<lambda>t. map (\<lambda>g. g\<lparr>Name := t @ ''.'' @ Name g\<rparr>)
                                     (fetched_groups B t)) order) \<and>
         Marshal B (rules c) = Inr doc) \<and>
      length (rules c) = sum_list (map (\<lambda>t. length (fetched_groups B t)) (ranged f racing))"
    if "GetTenantsRules B f racing ctx sch = Some (Inr doc, c)"
  proof -
    from that obtain order where o: "mset order = mset (ranged f racing)"
      "rules c = merged B order" "Marshal B (rules c) = Inr doc"
      using collect_Inr [of B sch "?c ctx" doc c] by (auto simp: run)
    have "length (rules c) = sum_list (map (\<lambda>t. length (fetched_groups B t)) order)"
      using o(2) by (simp add: length_merged)
    also have "\<dots> = sum_list (map (\<lambda>t. length (fetched_groups B t)) (ranged f racing))"
      using o(1) by (rule sum_list_mset_cong)
    finally show ?thesis using o by (auto simp: merged_def)
  qed
  have seq: "\<exists>c'. GetTenantsRules B f racing None (sequential (ranged f racing)) = Some (Inr doc', c') \<and>
         rules c' = merged B (ranged f racing)"
    if "(\<forall>t\<in>set (ranged f racing). fetch_ok B t) \<and> Marshal B (merged B (ranged f racing)) = Inr doc'"
  proof -
    from that obtain c' where c': "collect B (sequential (ranged f racing)) (?c None) = Some (finish B c')"
      "rules c' = merged B (ranged f racing)"
      using collect_sequential_ok [of "?c None" "ranged f racing" B] by auto
    with that have "finish B c' = (Inr doc', c')" by (simp add: finish_def)
    with c' show ?thesis by (auto simp: run)
  qed
  from doc seq show ?thesis by blast
qed

theorem GetTenantsRules_merged_document_witness:
  "GetTenantsRules test_backend \<lparr>tenants = [''tenant1'', ''tenant2'']\<rparr> [] None
       [SelectSem, SelectSem, Report ''tenant2'', Report ''tenant1''] =
     Some (Inr ''tenant2.test; tenant2.test2; tenant1.test; tenant1.test2; '',
       \<lparr>pending = [], inflight = [], ctx_err = None,
        rules = [\<lparr>Name = ''tenant2.test'', Rules = ''TestAlert''\<rparr>,
                 \<lparr>Name = ''tenant2.test2'', Rules = ''TestRecord2''\<rparr>,
                 \<lparr>Name = ''tenant1.test'', Rules = ''TestAlert''\<rparr>,
                 \<lparr>Name = ''tenant1.test2'', Rules = ''TestRecord2''\<rparr>],
        launched = [''tenant1'', ''tenant2''], snapshot = [''tenant1'', ''tenant2'']\<rparr>) \<and>
   sum_list (map (\<lambda>t. length (fetched_groups test_backend t)) [''tenant1'', ''tenant2'']) = 4 \<and>
   (\<exists>c'. GetTenantsRules test_backend \<lparr>tenants = [''tenant1'', ''tenant2'']\<rparr> [] None
       (sequential [''tenant1'', ''tenant2'']) =
     Some (Inr ''tenant1.test; tenant1.test2; tenant2.test; tenant2.test2; '', c'))"
proof -
  let ?f = "\<lparr>tenants = [''tenant1'', ''tenant2'']\<rparr>"
  have ok: "GetTenantsRules test_backend ?f [] None
       [SelectSem, SelectSem, Report ''tenant2'', Report ''tenant1''] =
     Some (Inr ''tenant2.test; tenant2.test2; tenant1.test; tenant1.test2; '',
       \<lparr>pending = [], inflight = [], ctx_err = None,
        rules = [\<lparr>Name = ''tenant2.test'', Rules = ''TestAlert''\<rparr>,
                 \<lparr>Name = ''tenant2.test2'', Rules = ''TestRecord2''\<rparr>,
                 \<lparr>Name = ''tenant1.test'', Rules = ''TestAlert''\<rparr>,
                 \<lparr>Name = ''tenant1.test2'', Rules = ''TestRecord2''\<rparr>],
        launched = [''tenant1'', ''tenant2''], snapshot = [''tenant1'', ''tenant2'']\<rparr>)"
    by (simp add: run_simps test_backend_def)
  have all_ok: "\<forall>t\<in>set (tenants ?f). fetch_ok test_backend t"
    by (simp add: fetch_ok_def test_backend_def)
  have m: "Marshal test_backend (merged test_backend (tenants ?f)) =
      Inr ''tenant1.test; tenant1.test2; tenant2.test; tenant2.test2; ''"
    by (simp add: merged_def fetched_groups_def test_backend_def)
  note inst = GetTenantsRules_merged_document [where B = test_backend and f = ?f and ctx = None
      and racing = "[]"
      and sch = "[SelectSem, SelectSem, Report ''tenant2'', Report ''tenant1'']"
      and doc = "''tenant2.test; tenant2.test2; tenant1.test; tenant1.test2; ''"
      and c = "\<lparr>pending = [], inflight = [], ctx_err = None,
        rules = [\<lparr>Name = ''tenant2.test'', Rules = ''TestAlert''\<rparr>,
                 \<lparr>Name = ''tenant2.test2'', Rules = ''TestRecord2''\<rparr>,
                 \<lparr>Name = ''tenant1.test'', Rules = ''TestAlert''\<rparr>,
                 \<lparr>Name = ''tenant1.test2'', Rules = ''TestRecord2''\<rparr>],
        launched = [''tenant1'', ''tenant2''], snapshot = [''tenant1'', ''tenant2'']\<rparr>"
      and doc' = "''tenant1.test; tenant1.test2; tenant2.test; tenant2.test2; ''"]
  from inst ok have "sum_list (map (\<lambda>t. length (fetched_groups test_backend t)) [''tenant1'', ''tenant2'']) = 4"
    by (simp add: ranged_def)
  moreover from inst all_ok m
  have "\<exists>c'. GetTenantsRules test_backend ?f [] None (sequential [''tenant1'', ''tenant2'']) =
     Some (Inr ''tenant1.test; tenant1.test2; tenant2.test; tenant2.test2; '', c')"
    by (auto simp: ranged_def)
  ultimately show ?thesis using ok by simp
qed

text \<open>
  Claim C8, as amended. With a context that is already done and a tenant list that is
  not empty, every call that returns returns the context's error (wrapped as a failed
  request) and no document; and when the dispatcher's first \<^verbatim>\<open>select\<close> takes
  \<^verbatim>\<open>ctx.Done()\<close> the call returns that error with no fetch goroutine started.
\<close>

theorem GetTenantsRules_cancelled:
  "ranged f racing \<noteq> [] \<Longrightarrow>
   (GetTenantsRules B f racing (Some ce) sch = Some (r, c) \<longrightarrow>
      r = Inl (Wrap ''failed to do http request'' ce)) \<and>
   (\<exists>c'. GetTenantsRules B f racing (Some ce) (SelectDone # sch) =
      Some (Inl (Wrap ''failed to do http request'' ce), c') \<and> launched c' = [])"
proof -
  assume ne: "ranged f racing \<noteq> []"
  let ?c = "\<lparr>pending = ranged f racing, inflight = [], ctx_err = Some ce, rules = [],
             launched = [], snapshot = tenants f\<rparr>"
  have run: "GetTenantsRules B f racing (Some ce) s = collect B s ?c" for s
    by (simp add: GetTenantsRules_def ranged_def)
  from ne have nc: "\<not> closed ?c" by (simp add: closed_def)
  have "r = Inl (Wrap ''failed to do http request'' ce)"
    if "GetTenantsRules B f racing (Some ce) sch = Some (r, c)"
    using that collect_cancelled [of ?c ce B sch r c] nc by (simp add: run)
  moreover from ne obtain t ts where "ranged f racing = t # ts" by (cases "ranged f racing") auto
  then have "\<exists>c'. GetTenantsRules B f racing (Some ce) (SelectDone # sch) =
      Some (Inl (Wrap ''failed to do http request'' ce), c') \<and> launched c' = []"
    by (simp add: run closed_def)
  ultimately show ?thesis by blast
qed

theorem GetTenantsRules_cancelled_witness:
  "ranged \<lparr>tenants = [''tenant1'', ''tenant2'']\<rparr> [] \<noteq> [] \<and>
   GetTenantsRules test_backend \<lparr>tenants = [''tenant1'', ''tenant2'']\<rparr> [] (Some context_canceled)
       [SelectSem, Report ''tenant1''] =
     Some (Inl (Wrap ''failed to do http request'' context_canceled),
       \<lparr>pending = [''tenant2''], inflight = [''tenant1''], ctx_err = Some context_canceled,
        rules = [], launched = [''tenant1''], snapshot = [''tenant1'', ''tenant2'']\<rparr>) \<and>
   (\<exists>c'. GetTenantsRules test_backend \<lparr>tenants = [''tenant1'', ''tenant2'']\<rparr> []
        (Some context_canceled) [SelectDone] =
      Some (Inl (Wrap ''failed to do http request'' context_canceled), c') \<and> launched c' = [])"
proof -
  let ?f = "\<lparr>tenants = [''tenant1'', ''tenant2'']\<rparr>"
  have ne: "ranged ?f [] \<noteq> []" by (simp add: ranged_def)
  have run: "GetTenantsRules test_backend ?f [] (Some context_canceled)
       [SelectSem, Report ''tenant1''] =
     Some (Inl (Wrap ''failed to do http request'' context_canceled),
       \<lparr>pending = [''tenant2''], inflight = [''tenant1''], ctx_err = Some context_canceled,
        rules = [], launched = [''tenant1''], snapshot = [''tenant1'', ''tenant2'']\<rparr>)"
    by (simp add: run_simps)
  from GetTenantsRules_cancelled [where f = ?f and racing = "[]" and B = test_backend
      and ce = context_canceled and sch = "[]"] ne run
  show ?thesis by simp
qed

text \<open>
  Claim C8 as stated fails: with a done context and no tenants the call returns the empty
  document and no error; and with tenants, when the \<^verbatim>\<open>select\<close> takes the free slot of the
  semaphore, the goroutine of the first tenant is started.
\<close>

theorem GetTenantsRules_cancelled_counterexample:
  "GetTenantsRules test_backend \<lparr>tenants = []\<rparr> [] (Some context_canceled) [] =
     Some (Inr [], \<lparr>pending = [], inflight = [], ctx_err = Some context_canceled,
                    rules = [], launched = [], snapshot = []\<rparr>) \<and>
   GetTenantsRules test_backend \<lparr>tenants = [''tenant1'', ''tenant2'']\<rparr> [] (Some context_canceled)
       [SelectSem, Report ''tenant1''] =
     Some (Inl (Wrap ''failed to do http request'' context_canceled),
       \<lparr>pending = [''tenant2''], inflight = [''tenant1''], ctx_err = Some context_canceled,
        rules = [], launched = [''tenant1''], snapshot = [''tenant1'', ''tenant2'']\<rparr>)"
  by (simp add: run_simps test_backend_def)


text \<open>
  Claim C2 fails on the code: the copy made under the mutex is not the list that the
  dispatcher ranges over. With the tenant set \<open>[a]\<close> at the start of the cycle and a
  \<^verbatim>\<open>SetTenants([b])\<close> of another goroutine between the unlock of line 74 and the
  \<^verbatim>\<open>range f.tenants\<close> of line 76, the snapshot is \<open>[a]\<close> and the cycle fetches \<open>b\<close>.
\<close>

theorem GetTenantsRules_ranges_over_field:
  "GetTenantsRules test_backend \<lparr>tenants = [''a'']\<rparr> [[''b'']] None (sequential [''b'']) =
     Some (Inr ''b.test; b.test2; '',
       \<lparr>pending = [], inflight = [], ctx_err = None,
        rules = [\<lparr>Name = ''b.test'', Rules = ''TestAlert''\<rparr>,
                 \<lparr>Name = ''b.test2'', Rules = ''TestRecord2''\<rparr>],
        launched = [''b''], snapshot = [''a'']\<rparr>)"
  by (simp add: run_simps test_backend_def)

section \<open>Properties of RoundTrip\<close>

lemma MaxElapsedTime_Reset [simp]: "MaxElapsedTime (Reset b t) = MaxElapsedTime b"
  by (simp add: Reset_def)

lemma operation_client_error:
  "outcome a = Inr resp \<Longrightarrow> 400 \<le> StatusCode resp \<Longrightarrow> StatusCode resp \<le> 499 \<Longrightarrow>
   StatusCode resp \<noteq> 429 \<Longrightarrow>
   operation P b st a k =
     (Permanent (StatusError ''client error'' (StatusCode resp)),
      k\<lparr>resp_err := Some (Inr (close_body resp)), now := now k + latency a,
        starts := starts k @ [now k]\<rparr>)"
  by (simp add: operation_def StatusTooManyRequests_def)

lemma operation_over_budget:
  "outcome a = Inr resp \<Longrightarrow> StatusCode resp = 429 \<Longrightarrow> RetryAfter resp \<noteq> [] \<Longrightarrow>
   P (RetryAfter resp) = Inr delay \<Longrightarrow>
   delay > MaxElapsedTime b \<or> int64 (now k + latency a - st + delay) > MaxElapsedTime b \<Longrightarrow>
   operation P b st a k =
     (Permanent (Error ''retry-after delay is greater than max elapsed time''),
      k\<lparr>resp_err := Some (Inr (close_body resp)), now := now k + latency a,
        starts := starts k @ [now k]\<rparr>)"
  by (simp add: operation_def StatusTooManyRequests_def)

lemmas transport_simps = RoundTrip_def NewRetryableTransport_def NewExponentialBackOff_def
  Reset_def setIfNotZero_def test_cfg_def test_ParseDuration_def answer_def response_def
  operation_def NextBackOff_def getRandomValueFromInterval_def incrementCurrentInterval_def
  Stop_def StatusTooManyRequests_def close_body_def Millisecond_def Second_def Minute_def
  int64_def signed_divide_int_def

text \<open>
  Claim C6. A response with a status from 400 to 499 other than 429 ends the retry loop
  where it arrives: the body is closed, nothing is slept and no further request is
  issued. When it answers the first attempt, \<^verbatim>\<open>RoundTrip\<close> returns it with a nil error
  after exactly one request and no sleep.
\<close>

theorem RoundTrip_client_error_permanent:
  "outcome a = Inr resp \<Longrightarrow> 400 \<le> StatusCode resp \<Longrightarrow> StatusCode resp \<le> 499 \<Longrightarrow>
   StatusCode resp \<noteq> 429 \<Longrightarrow>
   RoundTrip r P entry (a # rest) =
     Some (Some (Inr (close_body resp)), r\<lparr>backoffConfig := Reset (backoffConfig r) entry\<rparr>,
           \<lparr>resp_err = Some (Inr (close_body resp)), now = entry + latency a,
            starts = [entry], sleeps = []\<rparr>) \<and>
   Retry_loop P st (a # rest) b k =
     Some (b, k\<lparr>resp_err := Some (Inr (close_body resp)), now := now k + latency a,
                starts := starts k @ [now k]\<rparr>)"
  by (simp add: RoundTrip_def operation_client_error)

theorem RoundTrip_client_error_permanent_witness:
  "RoundTrip (NewRetryableTransport test_cfg 0) test_ParseDuration 1000
     (answer Millisecond 404 [] # [answer Millisecond 200 []]) =
     Some (Some (Inr (close_body (response 404 []))),
           (NewRetryableTransport test_cfg 0)
             \<lparr>backoffConfig := Reset (backoffConfig (NewRetryableTransport test_cfg 0)) 1000\<rparr>,
           \<lparr>resp_err = Some (Inr (close_body (response 404 []))), now = 1000 + Millisecond,
            starts = [1000], sleeps = []\<rparr>)"
  using RoundTrip_client_error_permanent [of "answer Millisecond 404 []" "response 404 []"
      "NewRetryableTransport test_cfg 0" test_ParseDuration 1000 "[answer Millisecond 200 []]"]
  by (simp add: answer_def response_def)

text \<open>
  Claim C4, as amended. A 429 response whose \<^verbatim>\<open>Retry-After\<close> parses as a duration that
  exceeds MaxElapsedTime, alone or added (as an \<^verbatim>\<open>int64\<close>) to the time elapsed since
  \<^verbatim>\<open>RoundTrip\<close> was entered, ends the retry loop where it arrives: the body is closed,
  nothing is slept and no further request is issued. When it answers the first attempt,
  \<^verbatim>\<open>RoundTrip\<close> returns it with a nil error after exactly one request and no sleep.
\<close>

theorem RoundTrip_retry_after_over_budget:
  "outcome a = Inr resp \<Longrightarrow> StatusCode resp = 429 \<Longrightarrow> RetryAfter resp \<noteq> [] \<Longrightarrow>
   P (RetryAfter resp) = Inr delay \<Longrightarrow>
   (delay > MaxElapsedTime b \<or> int64 (now k + latency a - st + delay) > MaxElapsedTime b \<longrightarrow>
      Retry_loop P st (a # rest) b k =
        Some (b, k\<lparr>resp_err := Some (Inr (close_body resp)), now := now k + latency a,
                   starts := starts k @ [now k]\<rparr>)) \<and>
   (delay > MaxElapsedTime (backoffConfig r) \<or>
    int64 (latency a + delay) > MaxElapsedTime (backoffConfig r) \<longrightarrow>
      RoundTrip r P entry (a # rest) =
        Some (Some (Inr (close_body resp)), r\<lparr>backoffConfig := Reset (backoffConfig r) entry\<rparr>,
              \<lparr>resp_err = Some (Inr (close_body resp)), now = entry + latency a,
               starts = [entry], sleeps = []\<rparr>))"
proof (intro conjI impI)
  assume h: "outcome a = Inr resp" "StatusCode resp = 429" "RetryAfter resp \<noteq> []"
    "P (RetryAfter resp) = Inr delay"
  {
    assume "delay > MaxElapsedTime b \<or> int64 (now k + latency a - st + delay) > MaxElapsedTime b"
    then show "Retry_loop P st (a # rest) b k =
        Some (b, k\<lparr>resp_err := Some (Inr (close_body resp)), now := now k + latency a,
                   starts := starts k @ [now k]\<rparr>)"
      using h by (simp add: operation_over_budget)
  next
    let ?k = "\<lparr>resp_err = None, now = entry, starts = [], sleeps = []\<rparr>"
    assume "delay > MaxElapsedTime (backoffConfig r) \<or>
      int64 (latency a + delay) > MaxElapsedTime (backoffConfig r)"
    then have "delay > MaxElapsedTime (Reset (backoffConfig r) entry) \<or>
      int64 (now ?k + latency a - entry + delay) > MaxElapsedTime (Reset (backoffConfig r) entry)"
      by simp
    from operation_over_budget [where k = ?k and st = entry and P = P and a = a
        and resp = resp and delay = delay and b = "Reset (backoffConfig r) entry", OF h this]
    show "RoundTrip r P entry (a # rest) =
        Some (Some (Inr (close_body resp)), r\<lparr>backoffConfig := Reset (backoffConfig r) entry\<rparr>,
              \<lparr>resp_err = Some (Inr (close_body resp)), now = entry + latency a,
               starts = [entry], sleeps = []\<rparr>)"
      by (simp add: RoundTrip_def)
  }
qed

theorem RoundTrip_retry_after_over_budget_witness:
  "RoundTrip (NewRetryableTransport test_cfg 0) test_ParseDuration 1000
     (answer Millisecond 429 ''1h'' # [answer Millisecond 200 []]) =
     Some (Some (Inr (close_body (response 429 ''1h''))),
           (NewRetryableTransport test_cfg 0)
             \<lparr>backoffConfig := Reset (backoffConfig (NewRetryableTransport test_cfg 0)) 1000\<rparr>,
           \<lparr>resp_err = Some (Inr (close_body (response 429 ''1h''))), now = 1000 + Millisecond,
            starts = [1000], sleeps = []\<rparr>) \<and>
   Retry_loop test_ParseDuration 1000 (answer Millisecond 429 ''100ms'' # [])
       (backoffConfig (NewRetryableTransport test_cfg 0))
       \<lparr>resp_err = None, now = 151001000, starts = [1000], sleeps = [100000000, 50000000]\<rparr> =
     Some (backoffConfig (NewRetryableTransport test_cfg 0),
           \<lparr>resp_err = Some (Inr (close_body (response 429 ''100ms''))), now = 152001000,
            starts = [1000, 151001000], sleeps = [100000000, 50000000]\<rparr>)"
proof -
  have first: "60 * Minute > MaxElapsedTime (backoffConfig (NewRetryableTransport test_cfg 0))"
    by (simp add: transport_simps)
  have later: "int64 (now \<lparr>resp_err = None, now = 151001000, starts = [1000],
                           sleeps = [100000000, 50000000]\<rparr> +
                     latency (answer Millisecond 429 ''100ms'') - 1000 + 100 * Millisecond)
      > MaxElapsedTime (backoffConfig (NewRetryableTransport test_cfg 0))"
    by (simp add: transport_simps)
  from first RoundTrip_retry_after_over_budget
      [where a = "answer Millisecond 429 ''1h''" and resp = "response 429 ''1h''"
        and P = test_ParseDuration and delay = "60 * Minute"
        and r = "NewRetryableTransport test_cfg 0" and entry = 1000
        and rest = "[answer Millisecond 200 []]"]
  have "RoundTrip (NewRetryableTransport test_cfg 0) test_ParseDuration 1000
     (answer Millisecond 429 ''1h'' # [answer Millisecond 200 []]) =
     Some (Some (Inr (close_body (response 429 ''1h''))),
           (NewRetryableTransport test_cfg 0)
             \<lparr>backoffConfig := Reset (backoffConfig (NewRetryableTransport test_cfg 0)) 1000\<rparr>,
           \<lparr>resp_err = Some (Inr (close_body (response 429 ''1h''))), now = 1000 + Millisecond,
            starts = [1000], sleeps = []\<rparr>)"
    by (simp add: answer_def response_def test_ParseDuration_def)
  moreover from later RoundTrip_retry_after_over_budget
      [where a = "answer Millisecond 429 ''100ms''" and resp = "response 429 ''100ms''"
        and P = test_ParseDuration and delay = "100 * Millisecond"
        and b = "backoffConfig (NewRetryableTransport test_cfg 0)" and st = 1000
        and k = "\<lparr>resp_err = None, now = 151001000, starts = [1000],
                  sleeps = [100000000, 50000000]\<rparr>"
        and rest = "[]"]
  have "Retry_loop test_ParseDuration 1000 (answer Millisecond 429 ''100ms'' # [])
       (backoffConfig (NewRetryableTransport test_cfg 0))
       \<lparr>resp_err = None, now = 151001000, starts = [1000], sleeps = [100000000, 50000000]\<rparr> =
     Some (backoffConfig (NewRetryableTransport test_cfg 0),
           \<lparr>resp_err = Some (Inr (close_body (response 429 ''100ms''))), now = 152001000,
            starts = [1000, 151001000], sleeps = [100000000, 50000000]\<rparr>)"
    by (simp add: answer_def response_def test_ParseDuration_def Millisecond_def)
  ultimately show ?thesis by simp
qed

text \<open>
  Claim C4 as stated fails on the scenario of the repository's own test (429 with
  \<^verbatim>\<open>Retry-After: 100ms\<close>, MaxElapsedTime 200ms): the first response is within the budget,
  so the call sleeps 100ms and then the back-off; for the second response the elapsed
  time plus the delay exceeds MaxElapsedTime and the call ends there, after two requests.
\<close>

theorem RoundTrip_retry_after_over_budget_counterexample:
  "RoundTrip (NewRetryableTransport test_cfg 0) test_ParseDuration 1000
     [answer Millisecond 429 ''100ms'', answer Millisecond 429 ''100ms''] =
     Some (Some (Inr (close_body (response 429 ''100ms''))),
           \<lparr>backoffConfig = \<lparr>InitialInterval = 50000000, MaxInterval = 100000000,
              MaxElapsedTime = 200000000, currentInterval = 75000000, startTime = 1000\<rparr>\<rparr>,
           \<lparr>resp_err = Some (Inr (close_body (response 429 ''100ms''))), now = 152001000,
            starts = [1000, 151001000], sleeps = [100000000, 50000000]\<rparr>) \<and>
   int64 ((152001000 - 1000) + 100 * Millisecond) > 200 * Millisecond"
  by (simp add: transport_simps)

lemma operation_server_error:
  assumes "server_error a"
  obtains resp where "outcome a = Inr resp" "500 \<le> StatusCode resp"
    "operation P b st a k =
       (Retryable (StatusError ''server error'' (StatusCode resp)),
        k\<lparr>resp_err := Some (Inr (close_body resp)), now := now k + latency a,
          starts := starts k @ [now k]\<rparr>)"
  using assms by (auto simp: server_error_def operation_def split: sum.splits)

lemma getRandomValueFromInterval_nonneg:
  assumes "0 \<le> cur" "0 \<le> k"
  shows "0 \<le> getRandomValueFromInterval k cur"
proof -
  from assms have "0 \<le> cur * 2 ^ 52 + k * (cur + 1)" by simp
  then show ?thesis
    by (simp add: getRandomValueFromInterval_def signed_divide_int_def sgn_if pos_imp_zdiv_nonneg_iff)
qed

lemma twice_div_less:
  assumes "(0::int) < d" "2 * n < d * m"
  shows "2 * (n div d) < m"
proof -
  have "n = d * (n div d) + n mod d" by simp
  moreover have "0 \<le> n mod d" using assms(1) by simp
  ultimately have "d * (n div d) \<le> n" by linarith
  then have "d * (2 * (n div d)) < d * m" using assms(2) by simp
  then show ?thesis using assms(1) by (simp only: mult_less_cancel_left_pos)
qed

lemma getRandomValueFromInterval_upper:
  assumes "0 \<le> cur" "0 \<le> k" "k < 2 ^ 53"
  shows "2 * getRandomValueFromInterval k cur \<le> 3 * cur + 1"
proof -
  let ?n = "cur * 2 ^ 52 + k * (cur + 1)"
  from assms have n0: "0 \<le> ?n" by simp
  then have g: "getRandomValueFromInterval k cur = ?n div 2 ^ 53"
    by (simp add: getRandomValueFromInterval_def signed_divide_int_def sgn_if)
  from assms have "k * (cur + 1) \<le> (2 ^ 53 - 1) * (cur + 1)"
    by (intro mult_right_mono) simp_all
  then have "2 * ?n < 2 ^ 53 * (3 * cur + 2)" using assms(1) by (simp add: algebra_simps)
  then have "2 * (?n div 2 ^ 53) < 3 * cur + 2"
    by (intro twice_div_less) simp_all
  then show ?thesis using g by simp
qed

lemma incrementCurrentInterval_fields [simp]:
  "startTime (incrementCurrentInterval b) = startTime b"
  "MaxElapsedTime (incrementCurrentInterval b) = MaxElapsedTime b"
  "MaxInterval (incrementCurrentInterval b) = MaxInterval b"
  "InitialInterval (incrementCurrentInterval b) = InitialInterval b"
  by (simp_all add: incrementCurrentInterval_def)

lemma incrementCurrentInterval_nonneg:
  "0 \<le> currentInterval b \<Longrightarrow> 0 \<le> MaxInterval b \<Longrightarrow> 0 \<le> currentInterval (incrementCurrentInterval b)"
  by (simp add: incrementCurrentInterval_def signed_divide_int_def sgn_if pos_imp_zdiv_nonneg_iff)

lemma Retry_loop_server_error_step:
  assumes "server_error a"
  obtains resp where "outcome a = Inr resp" "500 \<le> StatusCode resp"
    "Retry_loop P st (a # as) b k =
      (if (MaxElapsedTime b \<noteq> 0 \<and>
            now k + latency a - startTime b + getRandomValueFromInterval (random a) (currentInterval b)
              > MaxElapsedTime b) \<or>
          getRandomValueFromInterval (random a) (currentInterval b) = Stop
       then Some (incrementCurrentInterval b,
                  k\<lparr>resp_err := Some (Inr (close_body resp)), now := now k + latency a,
                    starts := starts k @ [now k]\<rparr>)
       else Retry_loop P st as (incrementCurrentInterval b)
              (k\<lparr>resp_err := Some (Inr (close_body resp)),
                 starts := starts k @ [now k],
                 now := now k + latency a +
                        max 0 (getRandomValueFromInterval (random a) (currentInterval b)),
                 sleeps := sleeps k @ [getRandomValueFromInterval (random a) (currentInterval b)]\<rparr>))"
proof -
  from assms obtain resp where r: "outcome a = Inr resp" "500 \<le> StatusCode resp"
    and op: "operation P b st a k =
       (Retryable (StatusError ''server error'' (StatusCode resp)),
        k\<lparr>resp_err := Some (Inr (close_body resp)), now := now k + latency a,
          starts := starts k @ [now k]\<rparr>)"
    by (rule operation_server_error)
  have "Retry_loop P st (a # as) b k =
      (if (MaxElapsedTime b \<noteq> 0 \<and>
            now k + latency a - startTime b + getRandomValueFromInterval (random a) (currentInterval b)
              > MaxElapsedTime b) \<or>
          getRandomValueFromInterval (random a) (currentInterval b) = Stop
       then Some (incrementCurrentInterval b,
                  k\<lparr>resp_err := Some (Inr (close_body resp)), now := now k + latency a,
                    starts := starts k @ [now k]\<rparr>)
       else Retry_loop P st as (incrementCurrentInterval b)
              (k\<lparr>resp_err := Some (Inr (close_body resp)),
                 starts := starts k @ [now k],
                 now := now k + latency a +
                        max 0 (getRandomValueFromInterval (random a) (currentInterval b)),
                 sleeps := sleeps k @ [getRandomValueFromInterval (random a) (currentInterval b)]\<rparr>))"
    by (simp add: op NextBackOff_def Let_def)
  with r show ?thesis by (rule that)
qed

lemma Retry_loop_server_errors:
  assumes "\<forall>a\<in>set as. server_error a \<and> 0 \<le> latency a \<and> 0 \<le> random a"
    and "0 \<le> currentInterval b" and "0 \<le> MaxInterval b"
    and "Retry_loop P st as b k = Some (b', k')"
  shows "\<exists>resp more. length more < length as \<and> outcome (as ! length more) = Inr resp \<and>
           500 \<le> StatusCode resp \<and>
           resp_err k' = Some (Inr (close_body resp)) \<and>
           starts k' = starts k @ now k # more \<and>
           (MaxElapsedTime b \<noteq> 0 \<longrightarrow> (\<forall>s\<in>set more. s - startTime b \<le> MaxElapsedTime b)) \<and>
           startTime b' = startTime b"
  using assms
proof (induction as arbitrary: b k)
  case Nil
  then show ?case by simp
next
  case (Cons a as)
  let ?next = "getRandomValueFromInterval (random a) (currentInterval b)"
  let ?k1 = "k\<lparr>resp_err := Some (Inr (close_body resp)), now := now k + latency a,
                    starts := starts k @ [now k]\<rparr>"
  from Cons.prems(1) have se: "server_error a" and lat: "0 \<le> latency a" and rnd: "0 \<le> random a"
    by simp_all
  from se obtain resp where r: "outcome a = Inr resp" "500 \<le> StatusCode resp"
    and step: "Retry_loop P st (a # as) b k =
      (if (MaxElapsedTime b \<noteq> 0 \<and>
            now k + latency a - startTime b + ?next > MaxElapsedTime b) \<or> ?next = Stop
       then Some (incrementCurrentInterval b,
                  k\<lparr>resp_err := Some (Inr (close_body resp)), now := now k + latency a,
                    starts := starts k @ [now k]\<rparr>)
       else Retry_loop P st as (incrementCurrentInterval b)
              (k\<lparr>resp_err := Some (Inr (close_body resp)),
                 starts := starts k @ [now k],
                 now := now k + latency a + max 0 ?next,
                 sleeps := sleeps k @ [?next]\<rparr>))"
    by (rule Retry_loop_server_error_step [where P = P and st = st and as = as and b = b and k = k])
  from Cons.prems(2) rnd have next0: "0 \<le> ?next" by (rule getRandomValueFromInterval_nonneg)
  show ?case
  proof (cases "(MaxElapsedTime b \<noteq> 0 \<and>
            now k + latency a - startTime b + ?next > MaxElapsedTime b) \<or> ?next = Stop")
    case True
    with Cons.prems(4) [unfolded step] have "b' = incrementCurrentInterval b"
      and "k' = k\<lparr>resp_err := Some (Inr (close_body resp)), now := now k + latency a,
                    starts := starts k @ [now k]\<rparr>"
      by simp_all
    with r show ?thesis by (intro exI [where x = resp] exI [where x = "[]"]) simp
  next
    case False
    let ?k2 = "k\<lparr>resp_err := Some (Inr (close_body resp)),
                 starts := starts k @ [now k],
                 now := now k + latency a + max 0 ?next,
                 sleeps := sleeps k @ [?next]\<rparr>"
    from False Cons.prems(4) [unfolded step]
    have rec: "Retry_loop P st as (incrementCurrentInterval b) ?k2 = Some (b', k')"
      by (auto split: if_splits)
    have "\<exists>resp more. length more < length as \<and> outcome (as ! length more) = Inr resp \<and>
           500 \<le> StatusCode resp \<and>
           resp_err k' = Some (Inr (close_body resp)) \<and>
           starts k' = starts ?k2 @ now ?k2 # more \<and>
           (MaxElapsedTime (incrementCurrentInterval b) \<noteq> 0 \<longrightarrow>
              (\<forall>s\<in>set more. s - startTime (incrementCurrentInterval b)
                  \<le> MaxElapsedTime (incrementCurrentInterval b))) \<and>
           startTime b' = startTime (incrementCurrentInterval b)"
      using Cons.prems(1,2,3) rec
      by (intro Cons.IH) (simp_all add: incrementCurrentInterval_nonneg)
    then obtain resp' more where m: "length more < length as"
      "outcome (as ! length more) = Inr resp'" "500 \<le> StatusCode resp'"
      "resp_err k' = Some (Inr (close_body resp'))"
      "starts k' = starts k @ now k # (now k + latency a + max 0 ?next) # more"
      "MaxElapsedTime b \<noteq> 0 \<longrightarrow> (\<forall>s\<in>set more. s - startTime b \<le> MaxElapsedTime b)"
      "startTime b' = startTime b"
      by auto
    from False next0 have cap: "MaxElapsedTime b \<noteq> 0 \<longrightarrow>
        now k + latency a + max 0 ?next - startTime b \<le> MaxElapsedTime b"
      by auto
    show ?thesis
      using m cap
      by (intro exI [where x = resp'] exI [where x = "(now k + latency a + max 0 ?next) # more"])
         simp
  qed
qed

lemma Retry_loop_terminates:
  assumes "\<forall>a\<in>set as. server_error a \<and> L \<le> latency a \<and> 0 \<le> random a"
    and "0 < L" and "0 \<le> currentInterval b" and "0 \<le> MaxInterval b"
    and "MaxElapsedTime b \<noteq> 0" and "as \<noteq> []"
    and "MaxElapsedTime b - (now k - startTime b) < int (length as) * L"
  shows "\<exists>b' k'. Retry_loop P st as b k = Some (b', k')"
  using assms
proof (induction as arbitrary: b k)
  case Nil
  then show ?case by simp
next
  case (Cons a as)
  let ?next = "getRandomValueFromInterval (random a) (currentInterval b)"
  from Cons.prems(1) have se: "server_error a" and lat: "L \<le> latency a" and rnd: "0 \<le> random a"
    by simp_all
  from se obtain resp where r: "outcome a = Inr resp" "500 \<le> StatusCode resp"
    and step: "Retry_loop P st (a # as) b k =
      (if (MaxElapsedTime b \<noteq> 0 \<and>
            now k + latency a - startTime b + ?next > MaxElapsedTime b) \<or> ?next = Stop
       then Some (incrementCurrentInterval b,
                  k\<lparr>resp_err := Some (Inr (close_body resp)), now := now k + latency a,
                    starts := starts k @ [now k]\<rparr>)
       else Retry_loop P st as (incrementCurrentInterval b)
              (k\<lparr>resp_err := Some (Inr (close_body resp)),
                 starts := starts k @ [now k],
                 now := now k + latency a + max 0 ?next,
                 sleeps := sleeps k @ [?next]\<rparr>))"
    by (rule Retry_loop_server_error_step [where P = P and st = st and as = as and b = b and k = k])
  from Cons.prems(3) rnd have next0: "0 \<le> ?next" by (rule getRandomValueFromInterval_nonneg)
  show ?case
  proof (cases "(MaxElapsedTime b \<noteq> 0 \<and>
            now k + latency a - startTime b + ?next > MaxElapsedTime b) \<or> ?next = Stop")
    case True
    then show ?thesis unfolding step by simp
  next
    case False
    let ?k2 = "k\<lparr>resp_err := Some (Inr (close_body resp)),
                 starts := starts k @ [now k],
                 now := now k + latency a + max 0 ?next,
                 sleeps := sleeps k @ [?next]\<rparr>"
    from False Cons.prems(5) have within: "now k + latency a - startTime b + ?next \<le> MaxElapsedTime b"
      by simp
    have "int (length (a # as)) * L = int (length as) * L + L" by (simp add: algebra_simps)
    with Cons.prems(7) within lat next0 \<open>0 < L\<close>
    have budget: "MaxElapsedTime b - (now ?k2 - startTime b) < int (length as) * L"
      by simp
    from within lat next0 \<open>0 < L\<close> Cons.prems(7) have "0 \<le> MaxElapsedTime b - (now ?k2 - startTime b)"
      by simp
    with budget have "0 < int (length as) * L" by linarith
    then have ne: "as \<noteq> []" by auto
    have "\<exists>b' k'. Retry_loop P st as (incrementCurrentInterval b) ?k2 = Some (b', k')"
      using Cons.prems(1,2,3,4,5) ne budget
      by (intro Cons.IH) (simp_all add: incrementCurrentInterval_nonneg)
    with False show ?thesis unfolding step by (auto split: if_splits)
  qed
qed

lemma Retry_loop_second_request:
  assumes "\<forall>a\<in>set (a1 # a2 # rest). server_error a \<and> 0 \<le> latency a \<and> 0 \<le> random a"
    and "random a1 < 2 ^ 53"
    and "0 \<le> currentInterval b" and "0 \<le> MaxInterval b"
    and "2 * (now k + latency a1 - startTime b) + 3 * currentInterval b + 1 \<le> 2 * MaxElapsedTime b"
    and "Retry_loop P st (a1 # a2 # rest) b k = Some (b', k')"
  shows "length (starts k) + 2 \<le> length (starts k')"
proof -
  let ?next = "getRandomValueFromInterval (random a1) (currentInterval b)"
  from assms(1) have se: "server_error a1" and rnd: "0 \<le> random a1" by simp_all
  from se obtain resp where
    step: "Retry_loop P st (a1 # a2 # rest) b k =
      (if (MaxElapsedTime b \<noteq> 0 \<and>
            now k + latency a1 - startTime b + ?next > MaxElapsedTime b) \<or> ?next = Stop
       then Some (incrementCurrentInterval b,
                  k\<lparr>resp_err := Some (Inr (close_body resp)), now := now k + latency a1,
                    starts := starts k @ [now k]\<rparr>)
       else Retry_loop P st (a2 # rest) (incrementCurrentInterval b)
              (k\<lparr>resp_err := Some (Inr (close_body resp)),
                 starts := starts k @ [now k],
                 now := now k + latency a1 + max 0 ?next,
                 sleeps := sleeps k @ [?next]\<rparr>))"
    by (rule Retry_loop_server_error_step
          [where P = P and st = st and as = "a2 # rest" and b = b and k = k])
  let ?k2 = "k\<lparr>resp_err := Some (Inr (close_body resp)),
                 starts := starts k @ [now k],
                 now := now k + latency a1 + max 0 ?next,
                 sleeps := sleeps k @ [?next]\<rparr>"
  from assms(3) rnd have next0: "0 \<le> ?next" by (rule getRandomValueFromInterval_nonneg)
  from assms(3) rnd assms(2) have "2 * ?next \<le> 3 * currentInterval b + 1"
    by (rule getRandomValueFromInterval_upper)
  with assms(5) have "now k + latency a1 - startTime b + ?next \<le> MaxElapsedTime b" by simp
  moreover from next0 have "?next \<noteq> Stop" by (simp add: Stop_def)
  ultimately have rec: "Retry_loop P st (a2 # rest) (incrementCurrentInterval b) ?k2 = Some (b', k')"
    using assms(6) unfolding step by (auto split: if_splits)
  have "\<exists>resp more. length more < length (a2 # rest) \<and>
           outcome ((a2 # rest) ! length more) = Inr resp \<and> 500 \<le> StatusCode resp \<and>
           resp_err k' = Some (Inr (close_body resp)) \<and>
           starts k' = starts ?k2 @ now ?k2 # more \<and>
           (MaxElapsedTime (incrementCurrentInterval b) \<noteq> 0 \<longrightarrow>
              (\<forall>s\<in>set more. s - startTime (incrementCurrentInterval b)
                  \<le> MaxElapsedTime (incrementCurrentInterval b))) \<and>
           startTime b' = startTime (incrementCurrentInterval b)"
    using assms(1,3,4) rec
    by (intro Retry_loop_server_errors) (simp_all add: incrementCurrentInterval_nonneg)
  then show ?thesis by auto
qed

lemma Reset_fields [simp]:
  "currentInterval (Reset b t) = InitialInterval b"
  "startTime (Reset b t) = t"
  "MaxInterval (Reset b t) = MaxInterval b"
  "InitialInterval (Reset b t) = InitialInterval b"
  by (simp_all add: Reset_def)

lemma RoundTrip_SomeD:
  assumes "RoundTrip r P entry attempts = Some (ret, r', k)"
  obtains b' where
    "Retry_loop P entry attempts (Reset (backoffConfig r) entry)
       \<lparr>resp_err = None, now = entry, starts = [], sleeps = []\<rparr> = Some (b', k)"
    "ret = resp_err k" "r' = r\<lparr>backoffConfig := b'\<rparr>"
  using assms by (auto simp: RoundTrip_def split: option.splits)

lemma NewRetryableTransport_fields:
  "MaxElapsedTime (backoffConfig (NewRetryableTransport cfg t)) \<noteq> 0"
  "0 \<le> cfg_InitialInterval cfg \<Longrightarrow> 0 \<le> InitialInterval (backoffConfig (NewRetryableTransport cfg t))"
  "0 \<le> cfg_MaxInterval cfg \<Longrightarrow> 0 \<le> MaxInterval (backoffConfig (NewRetryableTransport cfg t))"
  by (simp_all add: NewRetryableTransport_def NewExponentialBackOff_def Reset_def setIfNotZero_def
        Millisecond_def Second_def Minute_def Let_def)

lemma Retry_loop_startTime:
  "Retry_loop P st as b k = Some (b', k') \<Longrightarrow> startTime b' = startTime b"
proof (induction as arbitrary: b k)
  case Nil
  then show ?case by simp
next
  case (Cons a as)
  obtain res k1 where op: "operation P b st a k = (res, k1)" by (cases "operation P b st a k")
  show ?case
  proof (cases res)
    case NoError
    with Cons.prems op show ?thesis by simp
  next
    case (Permanent err)
    with Cons.prems op show ?thesis by simp
  next
    case (Retryable err)
    obtain nxt b1 where nb: "NextBackOff b (now k1) (random a) = (nxt, b1)"
      by (cases "NextBackOff b (now k1) (random a)")
    then have b1: "startTime b1 = startTime b"
      by (auto simp: NextBackOff_def Let_def split: if_splits)
    show ?thesis
    proof (cases "nxt = Stop")
      case True
      with Cons.prems op Retryable nb b1 show ?thesis by simp
    next
      case False
      with Cons.prems op Retryable nb
      have "Retry_loop P st as b1 (k1\<lparr>now := now k1 + max 0 nxt, sleeps := sleeps k1 @ [nxt]\<rparr>) =
          Some (b', k')" by simp
      from Cons.IH [OF this] b1 show ?thesis by simp
    qed
  qed
qed

text \<open>
  Claim C5, as amended. When every attempt is answered with a status of 500 or more (with
  intervals that are not negative and draws in the range of \<^verbatim>\<open>rand.Float64\<close>), a call of
  \<^verbatim>\<open>RoundTrip\<close> that returns has retried whenever the budget allowed it: it has issued
  more than one request if the latency of the first attempt plus one and a half times
  InitialInterval (and a nanosecond) fits into MaxElapsedTime; every request after the
  first was issued no later than MaxElapsedTime after the call was entered; and what is
  returned is the response of the last request issued, with a nil error.
\<close>

theorem RoundTrip_server_error_retried:
  assumes "\<forall>a\<in>set attempts. server_error a \<and> 0 \<le> latency a \<and> 0 \<le> random a \<and> random a < 2 ^ 53"
    and "0 \<le> InitialInterval (backoffConfig r)" and "0 \<le> MaxInterval (backoffConfig r)"
    and "RoundTrip r P entry attempts = Some (ret, r', k)"
  shows "(2 \<le> length attempts \<and>
          2 * latency (hd attempts) + 3 * InitialInterval (backoffConfig r) + 1
            \<le> 2 * MaxElapsedTime (backoffConfig r) \<longrightarrow> 2 \<le> length (starts k)) \<and>
         (MaxElapsedTime (backoffConfig r) \<noteq> 0 \<longrightarrow>
            (\<forall>s\<in>set (tl (starts k)). s - entry \<le> MaxElapsedTime (backoffConfig r))) \<and>
         1 \<le> length (starts k) \<and> length (starts k) \<le> length attempts \<and>
         (\<exists>resp. outcome (attempts ! (length (starts k) - 1)) = Inr resp \<and>
            500 \<le> StatusCode resp \<and> ret = Some (Inr (close_body resp)))"
proof -
  let ?b = "Reset (backoffConfig r) entry"
  let ?k = "\<lparr>resp_err = None, now = entry, starts = [], sleeps = []\<rparr>"
  from assms(4) obtain b' where loop: "Retry_loop P entry attempts ?b ?k = Some (b', k)"
    and ret: "ret = resp_err k"
    by (rule RoundTrip_SomeD)
  have "\<exists>resp more. length more < length attempts \<and> outcome (attempts ! length more) = Inr resp \<and>
           500 \<le> StatusCode resp \<and>
           resp_err k = Some (Inr (close_body resp)) \<and>
           starts k = starts ?k @ now ?k # more \<and>
           (MaxElapsedTime ?b \<noteq> 0 \<longrightarrow> (\<forall>s\<in>set more. s - startTime ?b \<le> MaxElapsedTime ?b)) \<and>
           startTime b' = startTime ?b"
    using assms(1,2,3) loop by (intro Retry_loop_server_errors) simp_all
  then obtain resp more where m: "length more < length attempts"
    "outcome (attempts ! length more) = Inr resp" "500 \<le> StatusCode resp"
    "resp_err k = Some (Inr (close_body resp))" "starts k = entry # more"
    "MaxElapsedTime (backoffConfig r) \<noteq> 0 \<longrightarrow>
       (\<forall>s\<in>set more. s - entry \<le> MaxElapsedTime (backoffConfig r))"
    by auto
  have second: "2 \<le> length (starts k)"
    if "2 \<le> length attempts \<and>
          2 * latency (hd attempts) + 3 * InitialInterval (backoffConfig r) + 1
            \<le> 2 * MaxElapsedTime (backoffConfig r)"
  proof -
    from that obtain a1 a2 rest where as: "attempts = a1 # a2 # rest"
      by (cases attempts; cases "tl attempts") auto
    have "length (starts ?k) + 2 \<le> length (starts k)"
      using assms(1,2,3) that loop unfolding as
      by (intro Retry_loop_second_request [where P = P and st = entry and ?a1.0 = a1
            and ?a2.0 = a2 and rest = rest and b = ?b and k = ?k and b' = b']) simp_all
    then show ?thesis by simp
  qed
  from m second ret show ?thesis by auto
qed

theorem RoundTrip_server_error_retried_witness:
  "RoundTrip (NewRetryableTransport test_cfg 0) test_ParseDuration 1000
     [answer Millisecond 500 [], answer Millisecond 500 [], answer Millisecond 500 []] =
     Some (Some (Inr (close_body (response 500 []))),
           \<lparr>backoffConfig = \<lparr>InitialInterval = 50000000, MaxInterval = 100000000,
              MaxElapsedTime = 200000000, currentInterval = 100000000, startTime = 1000\<rparr>\<rparr>,
           \<lparr>resp_err = Some (Inr (close_body (response 500 []))), now = 128001000,
            starts = [1000, 51001000, 127001000], sleeps = [50000000, 75000000]\<rparr>) \<and>
   2 * latency (answer Millisecond 500 []) + 3 * 50000000 + 1 \<le> 2 * (200000000::int) \<and>
   2 \<le> length [1000, 51001000, 127001000 :: int] \<and>
   51001000 - 1000 \<le> (200000000::int) \<and> 127001000 - 1000 \<le> (200000000::int)"
proof -
  let ?as = "[answer Millisecond 500 [], answer Millisecond 500 [], answer Millisecond 500 []]"
  let ?r = "NewRetryableTransport test_cfg 0"
  let ?k = "\<lparr>resp_err = Some (Inr (close_body (response 500 []))), now = 128001000,
            starts = [1000, 51001000, 127001000], sleeps = [50000000, 75000000]\<rparr>"
  have run: "RoundTrip ?r test_ParseDuration 1000 ?as =
     Some (Some (Inr (close_body (response 500 []))),
           \<lparr>backoffConfig = \<lparr>InitialInterval = 50000000, MaxInterval = 100000000,
              MaxElapsedTime = 200000000, currentInterval = 100000000, startTime = 1000\<rparr>\<rparr>, ?k)"
    by (simp add: transport_simps)
  have all5: "\<forall>a\<in>set ?as. server_error a \<and> 0 \<le> latency a \<and> 0 \<le> random a \<and> random a < 2 ^ 53"
    by (simp add: server_error_def answer_def response_def Millisecond_def)
  have i: "0 \<le> InitialInterval (backoffConfig ?r)" and m: "0 \<le> MaxInterval (backoffConfig ?r)"
    by (simp_all add: transport_simps)
  from RoundTrip_server_error_retried [OF all5 i m run]
  have "2 \<le> length [1000, 51001000, 127001000 :: int] \<and>
    51001000 - 1000 \<le> (200000000::int) \<and> 127001000 - 1000 \<le> (200000000::int)"
    by (simp add: transport_simps)
  with run show ?thesis by (simp add: answer_def Millisecond_def)
qed

text \<open>
  Claim C5 as stated fails: MaxElapsedTime (200ms) is greater than InitialInterval (50ms),
  every answer is a 500, and the first answer takes 300ms; \<^verbatim>\<open>NextBackOff\<close> finds the
  budget used up and the call returns after one request.
\<close>

theorem RoundTrip_server_error_retried_counterexample:
  "InitialInterval (backoffConfig (NewRetryableTransport test_cfg 0))
     < MaxElapsedTime (backoffConfig (NewRetryableTransport test_cfg 0)) \<and>
   RoundTrip (NewRetryableTransport test_cfg 0) test_ParseDuration 1000
     [answer (300 * Millisecond) 500 [], answer (300 * Millisecond) 500 []] =
     Some (Some (Inr (close_body (response 500 []))),
           \<lparr>backoffConfig = \<lparr>InitialInterval = 50000000, MaxInterval = 100000000,
              MaxElapsedTime = 200000000, currentInterval = 75000000, startTime = 1000\<rparr>\<rparr>,
           \<lparr>resp_err = Some (Inr (close_body (response 500 []))), now = 300001000,
            starts = [1000], sleeps = []\<rparr>)"
  by (simp add: transport_simps)

text \<open>
  Claim C10. When every attempt is answered with a status of 500 or more and takes at
  least \<open>L\<close>, and the environment has more attempts than MaxElapsedTime holds latencies,
  \<^verbatim>\<open>RoundTrip\<close> returns: the response of the last request issued, with its body closed,
  and a nil error.
\<close>

theorem RoundTrip_server_error_exhausted:
  assumes "\<forall>a\<in>set attempts. server_error a \<and> L \<le> latency a \<and> 0 \<le> random a"
    and "0 < L" and "0 \<le> cfg_InitialInterval cfg" and "0 \<le> cfg_MaxInterval cfg"
    and "attempts \<noteq> []"
    and "MaxElapsedTime (backoffConfig (NewRetryableTransport cfg t)) < int (length attempts) * L"
  shows "\<exists>resp r' k. RoundTrip (NewRetryableTransport cfg t) P entry attempts =
            Some (Some (Inr (close_body resp)), r', k) \<and>
          1 \<le> length (starts k) \<and> length (starts k) \<le> length attempts \<and>
          outcome (attempts ! (length (starts k) - 1)) = Inr resp \<and>
          500 \<le> StatusCode resp \<and> BodyClosed (close_body resp)"
proof -
  let ?r = "NewRetryableTransport cfg t"
  let ?b = "Reset (backoffConfig ?r) entry"
  let ?k = "\<lparr>resp_err = None, now = entry, starts = [], sleeps = []\<rparr>"
  have i: "0 \<le> InitialInterval (backoffConfig ?r)" and m: "0 \<le> MaxInterval (backoffConfig ?r)"
    and e: "MaxElapsedTime (backoffConfig ?r) \<noteq> 0"
    using assms(3,4) by (simp_all add: NewRetryableTransport_fields)
  have "\<exists>b' k'. Retry_loop P entry attempts ?b ?k = Some (b', k')"
    using assms(1,2,5,6) i m e by (intro Retry_loop_terminates [where L = L]) simp_all
  then obtain b' k where loop: "Retry_loop P entry attempts ?b ?k = Some (b', k)" by blast
  then have run: "RoundTrip ?r P entry attempts = Some (resp_err k, ?r\<lparr>backoffConfig := b'\<rparr>, k)"
    by (simp add: RoundTrip_def)
  from assms(1,2) have nonneg: "\<forall>a\<in>set attempts. server_error a \<and> 0 \<le> latency a \<and> 0 \<le> random a"
    by auto
  have "\<exists>resp more. length more < length attempts \<and> outcome (attempts ! length more) = Inr resp \<and>
           500 \<le> StatusCode resp \<and>
           resp_err k = Some (Inr (close_body resp)) \<and>
           starts k = starts ?k @ now ?k # more \<and>
           (MaxElapsedTime ?b \<noteq> 0 \<longrightarrow> (\<forall>s\<in>set more. s - startTime ?b \<le> MaxElapsedTime ?b)) \<and>
           startTime b' = startTime ?b"
    using nonneg i m loop by (intro Retry_loop_server_errors) simp_all
  then obtain resp more where "length more < length attempts"
    "outcome (attempts ! length more) = Inr resp" "500 \<le> StatusCode resp"
    "resp_err k = Some (Inr (close_body resp))" "starts k = entry # more"
    by auto
  with run show ?thesis by (auto simp: close_body_def)
qed

theorem RoundTrip_server_error_exhausted_witness:
  "\<exists>resp r' k. RoundTrip (NewRetryableTransport test_cfg 0) test_ParseDuration 1000
       [answer (100 * Millisecond) 500 [], answer (100 * Millisecond) 503 [],
        answer (100 * Millisecond) 502 []] =
     Some (Some (Inr (close_body resp)), r', k) \<and>
     1 \<le> length (starts k) \<and> length (starts k) \<le> 3 \<and>
     outcome ([answer (100 * Millisecond) 500 [], answer (100 * Millisecond) 503 [],
        answer (100 * Millisecond) 502 []] ! (length (starts k) - 1)) = Inr resp \<and>
     500 \<le> StatusCode resp \<and> BodyClosed (close_body resp)"
proof -
  let ?as = "[answer (100 * Millisecond) 500 [], answer (100 * Millisecond) 503 [],
        answer (100 * Millisecond) 502 []]"
  have all5: "\<forall>a\<in>set ?as. server_error a \<and> 100 * Millisecond \<le> latency a \<and> 0 \<le> random a"
    by (simp add: server_error_def answer_def response_def)
  have L: "0 < 100 * Millisecond" by (simp add: Millisecond_def)
  have i: "0 \<le> cfg_InitialInterval test_cfg" and m: "0 \<le> cfg_MaxInterval test_cfg"
    by (simp_all add: test_cfg_def Millisecond_def)
  have ne: "?as \<noteq> []" by simp
  have budget: "MaxElapsedTime (backoffConfig (NewRetryableTransport test_cfg 0))
      < int (length ?as) * (100 * Millisecond)"
    by (simp add: transport_simps)
  from RoundTrip_server_error_exhausted [OF all5 L i m ne budget, of test_ParseDuration 1000]
  show ?thesis by (simp add: numeral_3_eq_3)
qed

text \<open>Every call that returns leaves its own entry time as the transport's start time.\<close>

lemma RoundTrip_startTime:
  assumes "RoundTrip r P entry attempts = Some (ret, r', k)"
  shows "startTime (backoffConfig r') = entry"
proof -
  from assms obtain b' where loop: "Retry_loop P entry attempts (Reset (backoffConfig r) entry)
       \<lparr>resp_err = None, now = entry, starts = [], sleeps = []\<rparr> = Some (b', k)"
    and r': "r' = r\<lparr>backoffConfig := b'\<rparr>"
    by (rule RoundTrip_SomeD)
  from Retry_loop_startTime [OF loop] r' show ?thesis by simp
qed

text \<open>
  Claim C9 fails on the code: every call of \<^verbatim>\<open>RoundTrip\<close> hands the transport's one
  \<^verbatim>\<open>ExponentialBackOff\<close> to \<^verbatim>\<open>backoff.Retry\<close>, which resets it and advances it. After
  a call entered at clock 1000 that met one 500 and then a 200, the transport's start time
  is 1000 and its current interval 75ms, where they were 0 and 500ms before.
\<close>

theorem RoundTrip_writes_backoffConfig:
  "backoffConfig (NewRetryableTransport test_cfg 0) =
     \<lparr>InitialInterval = 50000000, MaxInterval = 100000000, MaxElapsedTime = 200000000,
      currentInterval = 500000000, startTime = 0\<rparr> \<and>
   RoundTrip (NewRetryableTransport test_cfg 0) test_ParseDuration 1000
     [answer Millisecond 500 [], answer Millisecond 200 []] =
     Some (Some (Inr (response 200 [])),
           \<lparr>backoffConfig = \<lparr>InitialInterval = 50000000, MaxInterval = 100000000,
              MaxElapsedTime = 200000000, currentInterval = 75000000, startTime = 1000\<rparr>\<rparr>,
           \<lparr>resp_err = Some (Inr (response 200 [])), now = 52001000,
            starts = [1000, 51001000], sleeps = [50000000]\<rparr>)"
  by (simp add: transport_simps)

end
